theory Spec2Isabelle
  imports Main "HOL-Library.Word"
begin

section \<open>Seeded Falcon-512 shim: the entropy slot and the three wrappers\<close>

text \<open>
  The development embeds the two C translation units \<^verbatim>\<open>randombytes_kmac.c\<close> and
  \<^verbatim>\<open>falcon_shim.c\<close>. Memory is a flat map from 64-bit addresses to bytes; \<^verbatim>\<open>size_t\<close> and
  pointers are 64-bit words (\<^verbatim>\<open>out[i]\<close> is the byte at \<open>out + i\<close>, computed in 64 bits); the C
  \<^verbatim>\<open>int\<close> status is a 32-bit word.
\<close>

subsection \<open>Data model\<close>

type_synonym addr = "64 word"
type_synonym size_t = "64 word"
type_synonym byte = "8 word"
type_synonym c_int = "32 word"
type_synonym tid = nat
type_synonym heap = "addr \<Rightarrow> byte"

text \<open>
  A function of C type \<^verbatim>\<open>void (*)(uint8_t*, size_t)\<close>: given the buffer pointer and the
  length it transforms the memory and the state \<open>'x\<close> its owner keeps (a DRBG, say). It
  always returns and does not itself call into \<^verbatim>\<open>randombytes_kmac.c\<close>. The pointer is
  optional: \<open>None\<close> is the null pointer.
\<close>

type_synonym 'x fill_fn = "addr \<Rightarrow> size_t \<Rightarrow> heap \<times> 'x \<Rightarrow> heap \<times> 'x"
type_synonym 'x fill_ptr = "'x fill_fn option"

text \<open>
  The program state. \<^verbatim>\<open>tls_fill\<close> is declared \<^verbatim>\<open>__thread static\<close>: one copy per thread,
  initialised to 0, and reachable from other translation units only through the functions
  of \<^verbatim>\<open>randombytes_kmac.c\<close>. Each function below takes the thread that executes it.
\<close>

record 'x world =
  heap :: heap
  ext :: 'x
  tls_fill :: "tid \<Rightarrow> 'x fill_ptr"

definition initial_world :: "heap \<Rightarrow> 'x \<Rightarrow> 'x world" where
  "initial_world h x = \<lparr>heap = h, ext = x, tls_fill = (\<lambda>t. None)\<rparr>"

subsection \<open>\<^verbatim>\<open>randombytes_kmac.c\<close>\<close>

lemma size_t_succ: "i < outlen \<Longrightarrow> unat (i + 1) = Suc (unat i)" for i outlen :: size_t
  by unat_arith

text \<open>The fallback loop \<^verbatim>\<open>for (size_t i = 0; i < outlen; i++) out[i] = 0;\<close> from index \<open>i\<close> on.\<close>

function zero_loop :: "addr \<Rightarrow> size_t \<Rightarrow> size_t \<Rightarrow> heap \<Rightarrow> heap" where
  "zero_loop out outlen i h =
     (if i < outlen then zero_loop out outlen (i + 1) (h(out + i := 0)) else h)"
  by pat_completeness auto
termination
  by (relation "measure (\<lambda>(out, outlen, i, h). unat outlen - unat i)")
     (auto simp: size_t_succ word_less_nat_alt)

declare zero_loop.simps [simp del]

definition randombytes :: "tid \<Rightarrow> addr \<Rightarrow> size_t \<Rightarrow> 'x world \<Rightarrow> 'x world" where
  "randombytes t out outlen s =
     (case tls_fill s t of
        Some f \<Rightarrow> (case f out outlen (heap s, ext s) of (h, x) \<Rightarrow> s\<lparr>heap := h, ext := x\<rparr>)
      | None \<Rightarrow> s\<lparr>heap := zero_loop out outlen 0 (heap s)\<rparr>)"

definition PQCLEAN_randombytes :: "tid \<Rightarrow> addr \<Rightarrow> size_t \<Rightarrow> 'x world \<Rightarrow> 'x world" where
  "PQCLEAN_randombytes t out outlen s = randombytes t out outlen s"

definition tt_set_randombytes :: "tid \<Rightarrow> 'x fill_ptr \<Rightarrow> 'x world \<Rightarrow> 'x world" where
  "tt_set_randombytes t fill_fn s = s\<lparr>tls_fill := (tls_fill s)(t := fill_fn)\<rparr>"

subsection \<open>The PQClean routines the shim links against\<close>

text \<open>
  \<^verbatim>\<open>falcon_shim.c\<close> only declares the three PQClean functions; they are parameters of the
  model. A routine is a well-founded tree of its interactions: it reads memory, writes
  memory, asks for random bytes under either name, and returns its status. It cannot name
  \<^verbatim>\<open>tls_fill\<close>, which has internal linkage. A routine that returns on every input is such a
  tree; one that runs forever is outside the model.
\<close>

datatype 'r routine =
    Return 'r
  | Load "heap \<Rightarrow> 'r routine"
  | Store "heap \<Rightarrow> heap" "'r routine"
  | Call_randombytes addr size_t "'r routine"
  | Call_PQCLEAN_randombytes addr size_t "'r routine"

primrec exec :: "tid \<Rightarrow> 'r routine \<Rightarrow> 'x world \<Rightarrow> 'x world \<times> 'r" where
  "exec t (Return r) = (\<lambda>s. (s, r))"
| "exec t (Load k) = (\<lambda>s. exec t (k (heap s)) s)"
| "exec t (Store u p) = (\<lambda>s. exec t p (s\<lparr>heap := u (heap s)\<rparr>))"
| "exec t (Call_randombytes out n p) = (\<lambda>s. exec t p (randombytes t out n s))"
| "exec t (Call_PQCLEAN_randombytes out n p) = (\<lambda>s. exec t p (PQCLEAN_randombytes t out n s))"

record pqclean =
  PQCLEAN_FALCON512_CLEAN_crypto_sign_keypair :: "addr \<Rightarrow> addr \<Rightarrow> c_int routine"
  PQCLEAN_FALCON512_CLEAN_crypto_sign_signature ::
    "addr \<Rightarrow> addr \<Rightarrow> addr \<Rightarrow> size_t \<Rightarrow> addr \<Rightarrow> c_int routine"
  PQCLEAN_FALCON512_CLEAN_crypto_sign_verify ::
    "addr \<Rightarrow> size_t \<Rightarrow> addr \<Rightarrow> size_t \<Rightarrow> addr \<Rightarrow> c_int routine"

subsection \<open>\<^verbatim>\<open>falcon_shim.c\<close>\<close>

definition tt_falcon512_keypair_seeded ::
  "pqclean \<Rightarrow> tid \<Rightarrow> addr \<Rightarrow> addr \<Rightarrow> 'x fill_ptr \<Rightarrow> 'x world \<Rightarrow> 'x world \<times> c_int" where
  "tt_falcon512_keypair_seeded lib t pk sk fill_fn s =
     exec t (PQCLEAN_FALCON512_CLEAN_crypto_sign_keypair lib pk sk)
       (tt_set_randombytes t fill_fn s)"

definition tt_falcon512_sign_seeded ::
  "pqclean \<Rightarrow> tid \<Rightarrow> addr \<Rightarrow> addr \<Rightarrow> addr \<Rightarrow> size_t \<Rightarrow> addr \<Rightarrow> 'x fill_ptr \<Rightarrow>
     'x world \<Rightarrow> 'x world \<times> c_int" where
  "tt_falcon512_sign_seeded lib t sig siglen m mlen sk fill_fn s =
     exec t (PQCLEAN_FALCON512_CLEAN_crypto_sign_signature lib sig siglen m mlen sk)
       (tt_set_randombytes t fill_fn s)"

definition tt_falcon512_verify ::
  "pqclean \<Rightarrow> tid \<Rightarrow> addr \<Rightarrow> size_t \<Rightarrow> addr \<Rightarrow> size_t \<Rightarrow> addr \<Rightarrow> 'x world \<Rightarrow>
     'x world \<times> c_int" where
  "tt_falcon512_verify lib t sig siglen m mlen pk s =
     exec t (PQCLEAN_FALCON512_CLEAN_crypto_sign_verify lib sig siglen m mlen pk) s"

subsection \<open>Observing a run\<close>

text \<open>
  The pointer that each \<^verbatim>\<open>if (tls_fill)\<close> reads while thread \<open>t\<close> runs a routine, in call
  order. The recursion is that of \<open>exec\<close>; only the recorded value differs.
\<close>

primrec slots_seen :: "tid \<Rightarrow> 'r routine \<Rightarrow> 'x world \<Rightarrow> 'x fill_ptr list" where
  "slots_seen t (Return r) = (\<lambda>s. [])"
| "slots_seen t (Load k) = (\<lambda>s. slots_seen t (k (heap s)) s)"
| "slots_seen t (Store u p) = (\<lambda>s. slots_seen t p (s\<lparr>heap := u (heap s)\<rparr>))"
| "slots_seen t (Call_randombytes out n p) =
     (\<lambda>s. tls_fill s t # slots_seen t p (randombytes t out n s))"
| "slots_seen t (Call_PQCLEAN_randombytes out n p) =
     (\<lambda>s. tls_fill s t # slots_seen t p (PQCLEAN_randombytes t out n s))"

subsection \<open>The events of a run\<close>

text \<open>
  The two places where \<^verbatim>\<open>randombytes_kmac.c\<close> touches \<^verbatim>\<open>tls_fill\<close> are the store
  \<^verbatim>\<open>tls_fill = fill_fn\<close> and the read \<^verbatim>\<open>if (tls_fill)\<close>. The functions below are the
  source functions again, run on a state paired with a log to which the store appends the
  pointer stored and the read the pointer read, each with the executing thread. The
  wrappers are the same two statements in the same order.
\<close>

datatype 'x event = Install "'x fill_ptr" | Fill_read "'x fill_ptr"

type_synonym 'x log = "(tid \<times> 'x event) list"

definition tt_set_randombytes_ev ::
  "tid \<Rightarrow> 'x fill_ptr \<Rightarrow> 'x world \<times> 'x log \<Rightarrow> 'x world \<times> 'x log" where
  "tt_set_randombytes_ev t fill_fn c =
     (tt_set_randombytes t fill_fn (fst c), snd c @ [(t, Install fill_fn)])"

definition randombytes_ev ::
  "tid \<Rightarrow> addr \<Rightarrow> size_t \<Rightarrow> 'x world \<times> 'x log \<Rightarrow> 'x world \<times> 'x log" where
  "randombytes_ev t out outlen c =
     (randombytes t out outlen (fst c), snd c @ [(t, Fill_read (tls_fill (fst c) t))])"

definition PQCLEAN_randombytes_ev ::
  "tid \<Rightarrow> addr \<Rightarrow> size_t \<Rightarrow> 'x world \<times> 'x log \<Rightarrow> 'x world \<times> 'x log" where
  "PQCLEAN_randombytes_ev t out outlen c = randombytes_ev t out outlen c"

primrec exec_ev ::
  "tid \<Rightarrow> 'r routine \<Rightarrow> 'x world \<times> 'x log \<Rightarrow> ('x world \<times> 'x log) \<times> 'r" where
  "exec_ev t (Return r) = (\<lambda>c. (c, r))"
| "exec_ev t (Load k) = (\<lambda>c. exec_ev t (k (heap (fst c))) c)"
| "exec_ev t (Store u p) = (\<lambda>c. exec_ev t p ((fst c)\<lparr>heap := u (heap (fst c))\<rparr>, snd c))"
| "exec_ev t (Call_randombytes out n p) = (\<lambda>c. exec_ev t p (randombytes_ev t out n c))"
| "exec_ev t (Call_PQCLEAN_randombytes out n p) =
     (\<lambda>c. exec_ev t p (PQCLEAN_randombytes_ev t out n c))"

definition tt_falcon512_keypair_seeded_ev ::
  "pqclean \<Rightarrow> tid \<Rightarrow> addr \<Rightarrow> addr \<Rightarrow> 'x fill_ptr \<Rightarrow> 'x world \<times> 'x log \<Rightarrow>
     ('x world \<times> 'x log) \<times> c_int" where
  "tt_falcon512_keypair_seeded_ev lib t pk sk fill_fn c =
     exec_ev t (PQCLEAN_FALCON512_CLEAN_crypto_sign_keypair lib pk sk) (tt_set_randombytes_ev t fill_fn c)"

definition tt_falcon512_sign_seeded_ev ::
  "pqclean \<Rightarrow> tid \<Rightarrow> addr \<Rightarrow> addr \<Rightarrow> addr \<Rightarrow> size_t \<Rightarrow> addr \<Rightarrow> 'x fill_ptr \<Rightarrow>
     'x world \<times> 'x log \<Rightarrow> ('x world \<times> 'x log) \<times> c_int" where
  "tt_falcon512_sign_seeded_ev lib t sig siglen m mlen sk fill_fn c =
     exec_ev t (PQCLEAN_FALCON512_CLEAN_crypto_sign_signature lib sig siglen m mlen sk) (tt_set_randombytes_ev t fill_fn c)"

text \<open>The first read of the slot that a log records, if it records one.\<close>

fun first_read :: "'x log \<Rightarrow> 'x fill_ptr option" where
  "first_read [] = None"
| "first_read ((t, Fill_read q) # l) = Some q"
| "first_read ((t, Install q) # l) = first_read l"

text \<open>A routine with its two entry points exchanged.\<close>

primrec rename_calls :: "'r routine \<Rightarrow> 'r routine" where
  "rename_calls (Return r) = Return r"
| "rename_calls (Load k) = Load (\<lambda>h. rename_calls (k h))"
| "rename_calls (Store u p) = Store u (rename_calls p)"
| "rename_calls (Call_randombytes out n p) = Call_PQCLEAN_randombytes out n (rename_calls p)"
| "rename_calls (Call_PQCLEAN_randombytes out n p) = Call_randombytes out n (rename_calls p)"

text \<open>A sequence of fill requests \<open>(out, outlen)\<close> served one after the other by thread \<open>t\<close>.\<close>

fun fills :: "tid \<Rightarrow> (addr \<times> size_t) list \<Rightarrow> 'x world \<Rightarrow> 'x world" where
  "fills t [] s = s"
| "fills t ((out, n) # rs) s = fills t rs (randombytes t out n s)"

subsection \<open>Several threads\<close>

text \<open>
  A call of one of the two seeded wrappers with its arguments, and the wrapper it stands
  for.
\<close>

datatype 'x call =
    Keypair addr addr "'x fill_ptr"
  | Sign addr addr addr size_t addr "'x fill_ptr"

fun fill_of :: "'x call \<Rightarrow> 'x fill_ptr" where
  "fill_of (Keypair pk sk fill_fn) = fill_fn"
| "fill_of (Sign sig siglen m mlen sk fill_fn) = fill_fn"

fun routine_of :: "pqclean \<Rightarrow> 'x call \<Rightarrow> c_int routine" where
  "routine_of lib (Keypair pk sk fill_fn) = PQCLEAN_FALCON512_CLEAN_crypto_sign_keypair lib pk sk"
| "routine_of lib (Sign sig siglen m mlen sk fill_fn) =
     PQCLEAN_FALCON512_CLEAN_crypto_sign_signature lib sig siglen m mlen sk"

fun seeded_call :: "pqclean \<Rightarrow> tid \<Rightarrow> 'x call \<Rightarrow> 'x world \<Rightarrow> 'x world \<times> c_int" where
  "seeded_call lib t (Keypair pk sk fill_fn) s = tt_falcon512_keypair_seeded lib t pk sk fill_fn s"
| "seeded_call lib t (Sign sig siglen m mlen sk fill_fn) s =
     tt_falcon512_sign_seeded lib t sig siglen m mlen sk fill_fn s"

text \<open>
  Threads that run side by side. A thread is about to enter its call, or is inside the
  routine with the rest of it still to run. One step of thread \<open>t\<close> is the first statement of
  the wrapper, the store of the caller's pointer, or the next action of the routine: a read
  of memory, a write of memory, a fill call, or nothing once the routine has returned. A
  schedule is the list of the threads that step, in order, all on the one shared state.
\<close>

datatype 'x task = Entering "'x call" | Inside "c_int routine"

fun step :: "pqclean \<Rightarrow> tid \<Rightarrow> ('x world \<times> 'x log) \<times> 'x task \<Rightarrow> ('x world \<times> 'x log) \<times> 'x task" where
  "step lib t (c, Entering cl) = (tt_set_randombytes_ev t (fill_of cl) c, Inside (routine_of lib cl))"
| "step lib t (c, Inside (Return r)) = (c, Inside (Return r))"
| "step lib t (c, Inside (Load k)) = (c, Inside (k (heap (fst c))))"
| "step lib t (c, Inside (Store u p)) = (((fst c)\<lparr>heap := u (heap (fst c))\<rparr>, snd c), Inside p)"
| "step lib t (c, Inside (Call_randombytes out n p)) = (randombytes_ev t out n c, Inside p)"
| "step lib t (c, Inside (Call_PQCLEAN_randombytes out n p)) =
     (PQCLEAN_randombytes_ev t out n c, Inside p)"

type_synonym 'x config = "('x world \<times> 'x log) \<times> (tid \<Rightarrow> 'x task)"

definition sched_step :: "pqclean \<Rightarrow> tid \<Rightarrow> 'x config \<Rightarrow> 'x config" where
  "sched_step lib t cfg =
     (fst (step lib t (fst cfg, snd cfg t)), (snd cfg)(t := snd (step lib t (fst cfg, snd cfg t))))"

fun run :: "pqclean \<Rightarrow> tid list \<Rightarrow> 'x config \<Rightarrow> 'x config" where
  "run lib [] cfg = cfg"
| "run lib (t # ts) cfg = run lib ts (sched_step lib t cfg)"

fun returned :: "'x task \<Rightarrow> c_int option" where
  "returned (Inside (Return r)) = Some r"
| "returned k = None"

text \<open>What thread \<open>t\<close> returns if it runs on alone from a configuration.\<close>

definition outcome :: "pqclean \<Rightarrow> tid \<Rightarrow> 'x config \<Rightarrow> 'x world \<times> c_int" where
  "outcome lib t cfg =
     (case snd cfg t of
        Entering cl \<Rightarrow> seeded_call lib t cl (fst (fst cfg))
      | Inside r \<Rightarrow> exec t r (fst (fst cfg)))"

text \<open>The calls of the threads \<open>ts\<close> made one after the other, each run to its end.\<close>

fun seq_calls ::
  "pqclean \<Rightarrow> (tid \<Rightarrow> 'x call) \<Rightarrow> tid list \<Rightarrow> 'x world \<times> (tid \<Rightarrow> c_int option) \<Rightarrow>
     'x world \<times> (tid \<Rightarrow> c_int option)" where
  "seq_calls lib calls [] c = c"
| "seq_calls lib calls (t # ts) c =
     seq_calls lib calls ts
       (fst (seeded_call lib t (calls t) (fst c)),
        (snd c)(t := Some (snd (seeded_call lib t (calls t) (fst c)))))"

subsection \<open>Vocabulary of the specification\<close>

text \<open>The two states of the slot, read off the pointer a thread holds.\<close>

datatype 'x slot_state = Empty | Installed "'x fill_fn"

definition slot_state :: "tid \<Rightarrow> 'x world \<Rightarrow> 'x slot_state" where
  "slot_state t s = (case tls_fill s t of None \<Rightarrow> Empty | Some f \<Rightarrow> Installed f)"

text \<open>
  The transitions the specification lists for \<open>set\<close>: from Empty to Installed and from
  Installed to Installed, and no other.
\<close>

fun spec_transition :: "'x slot_state \<Rightarrow> 'x slot_state \<Rightarrow> bool" where
  "spec_transition Empty (Installed f) = True"
| "spec_transition (Installed old) (Installed f) = True"
| "spec_transition a Empty = False"

text \<open>Memory after \<open>n\<close> zero bytes have been written from \<open>out\<close> on, all else kept.\<close>

definition zeroed :: "addr \<Rightarrow> size_t \<Rightarrow> heap \<Rightarrow> heap" where
  "zeroed out n h = (\<lambda>a. if a - out < n then 0 else h a)"

text \<open>
  Two fill functions, each with the state of its owner, produce identical byte streams:
  whatever the memory and the request, they leave the same memory, and they do so again
  from the states they reach. The predicate is the largest one with this property.
\<close>

coinductive same_stream :: "'x fill_fn \<Rightarrow> 'y fill_fn \<Rightarrow> 'x \<Rightarrow> 'y \<Rightarrow> bool"
  for f :: "'x fill_fn" and g :: "'y fill_fn" where
  same_streamI:
    "(\<And>out n h. fst (f out n (h, x)) = fst (g out n (h, y)) \<and>
        same_stream f g (snd (f out n (h, x))) (snd (g out n (h, y))))
     \<Longrightarrow> same_stream f g x y"

text \<open>
  A log in which every read of the slot by a thread finds the pointer that the same thread
  stored last.
\<close>

fun last_install :: "tid \<Rightarrow> 'x log \<Rightarrow> 'x fill_ptr option" where
  "last_install t [] = None"
| "last_install t ((t', Install p) # l) =
     (case last_install t l of Some q \<Rightarrow> Some q | None \<Rightarrow> if t' = t then Some p else None)"
| "last_install t ((t', Fill_read p) # l) = last_install t l"

definition reads_own :: "'x log \<Rightarrow> bool" where
  "reads_own l =
     (\<forall>i<length l. \<forall>t q. l ! i = (t, Fill_read q) \<longrightarrow> last_install t (take i l) = Some q)"

text \<open>
  Independent contexts. Thread \<open>t\<close> owns the addresses \<open>A t\<close> and the component \<open>t\<close> of the
  owners' state. A fill function is confined to them when, asked for a buffer inside
  \<open>A t\<close>, it writes nothing outside and what it leaves inside depends on nothing outside; a
  routine is confined when its reads, writes and fill buffers are. The contexts \<open>T\<close> are
  independent when their regions are pairwise disjoint and the routine and fill function
  of each call are confined to the region of its thread.
\<close>

definition agree :: "addr set \<Rightarrow> heap \<Rightarrow> heap \<Rightarrow> bool" where
  "agree A h h' = (\<forall>a\<in>A. h a = h' a)"

definition buffer :: "addr \<Rightarrow> size_t \<Rightarrow> addr set" where
  "buffer out n = {a. a - out < n}"

definition confined_fill :: "tid \<Rightarrow> addr set \<Rightarrow> (tid \<Rightarrow> 'y) fill_fn \<Rightarrow> bool" where
  "confined_fill t A f =
     (\<forall>out n h x. buffer out n \<subseteq> A \<longrightarrow>
        (\<forall>a. a \<notin> A \<longrightarrow> fst (f out n (h, x)) a = h a) \<and>
        (\<forall>t'. t' \<noteq> t \<longrightarrow> snd (f out n (h, x)) t' = x t') \<and>
        (\<forall>h' x'. agree A h h' \<longrightarrow> x t = x' t \<longrightarrow>
           agree A (fst (f out n (h, x))) (fst (f out n (h', x'))) \<and>
           snd (f out n (h, x)) t = snd (f out n (h', x')) t))"

definition confined_ptr :: "tid \<Rightarrow> addr set \<Rightarrow> (tid \<Rightarrow> 'y) fill_ptr \<Rightarrow> bool" where
  "confined_ptr t A p = (case p of None \<Rightarrow> True | Some f \<Rightarrow> confined_fill t A f)"

primrec confined :: "addr set \<Rightarrow> 'r routine \<Rightarrow> bool" where
  "confined A (Return r) = True"
| "confined A (Load k) =
     ((\<forall>h. confined A (k h)) \<and> (\<forall>h h'. agree A h h' \<longrightarrow> k h = k h'))"
| "confined A (Store u p) =
     (confined A p \<and> (\<forall>h a. a \<notin> A \<longrightarrow> u h a = h a) \<and>
      (\<forall>h h'. agree A h h' \<longrightarrow> agree A (u h) (u h')))"
| "confined A (Call_randombytes out n p) = (confined A p \<and> buffer out n \<subseteq> A)"
| "confined A (Call_PQCLEAN_randombytes out n p) = (confined A p \<and> buffer out n \<subseteq> A)"

definition same_view :: "tid \<Rightarrow> addr set \<Rightarrow> (tid \<Rightarrow> 'y) world \<Rightarrow> (tid \<Rightarrow> 'y) world \<Rightarrow> bool" where
  "same_view t A s s' =
     (agree A (heap s) (heap s') \<and> ext s t = ext s' t \<and> tls_fill s t = tls_fill s' t)"

definition independent ::
  "pqclean \<Rightarrow> (tid \<Rightarrow> (tid \<Rightarrow> 'y) call) \<Rightarrow> (tid \<Rightarrow> addr set) \<Rightarrow> tid set \<Rightarrow> bool" where
  "independent lib calls A T =
     ((\<forall>t\<in>T. \<forall>t'\<in>T. t \<noteq> t' \<longrightarrow> A t \<inter> A t' = {}) \<and>
      (\<forall>t\<in>T. confined (A t) (routine_of lib (calls t)) \<and>
              confined_ptr t (A t) (fill_of (calls t))))"

text \<open>What holds of every configuration reached from calls that are about to be entered.\<close>

definition task_inv ::
  "pqclean \<Rightarrow> (tid \<Rightarrow> (tid \<Rightarrow> 'y) call) \<Rightarrow> (tid \<Rightarrow> addr set) \<Rightarrow> tid set \<Rightarrow>
     (tid \<Rightarrow> 'y) config \<Rightarrow> bool" where
  "task_inv lib calls A T cfg =
     (\<forall>t\<in>T. case snd cfg t of
        Entering cl \<Rightarrow> cl = calls t
      | Inside r \<Rightarrow> confined (A t) r \<and> tls_fill (fst (fst cfg)) t = fill_of (calls t))"

definition log_inv :: "'x config \<Rightarrow> bool" where
  "log_inv cfg =
     (reads_own (snd (fst cfg)) \<and>
      (\<forall>t r. snd cfg t = Inside r \<longrightarrow>
         last_install t (snd (fst cfg)) = Some (tls_fill (fst (fst cfg)) t)))"

subsection \<open>A small instance\<close>

text \<open>
  Concrete fill functions and a concrete library on which the definitions are evaluated:
  \<open>const_fill b\<close> writes \<open>n\<close> bytes \<open>b\<close>, \<open>counting_fill b\<close> does the same and counts its
  calls; the toy key generation draws two bytes into \<open>pk\<close> and derives one byte of \<open>sk\<close>.
\<close>

definition const_fill :: "byte \<Rightarrow> 'x fill_fn" where
  "const_fill b out n = (\<lambda>(h, x). (\<lambda>a. if a - out < n then b else h a, x))"

definition counting_fill :: "byte \<Rightarrow> nat fill_fn" where
  "counting_fill b out n = (\<lambda>(h, x). (\<lambda>a. if a - out < n then b else h a, Suc x))"

definition toy_pqclean :: pqclean where
  "toy_pqclean =
     \<lparr>PQCLEAN_FALCON512_CLEAN_crypto_sign_keypair =
        (\<lambda>pk sk. Call_randombytes pk 2
           (Load (\<lambda>h. Store (\<lambda>m. m(sk := h pk + 1)) (Return 0)))),
      PQCLEAN_FALCON512_CLEAN_crypto_sign_signature =
        (\<lambda>sig siglen m mlen sk. Call_PQCLEAN_randombytes sig 1
           (Load (\<lambda>h. if h sk = 0 then Return 1
                       else Store (\<lambda>m. m(siglen := 1)) (Return 0)))),
      PQCLEAN_FALCON512_CLEAN_crypto_sign_verify =
        (\<lambda>sig siglen m mlen pk. Load (\<lambda>h. Return (if h sig = h pk then 0 else 1)))\<rparr>"

text \<open>
  Two threads: each generates a key pair in a region of its own, from a fill function that
  counts its calls in its own component of the owners' state.
\<close>

definition thread_fill :: "tid \<Rightarrow> byte \<Rightarrow> (tid \<Rightarrow> nat) fill_fn" where
  "thread_fill t b out n = (\<lambda>(h, x). (\<lambda>a. if a - out < n then b else h a, x(t := Suc (x t))))"

definition two_calls :: "tid \<Rightarrow> (tid \<Rightarrow> nat) call" where
  "two_calls t =
     (if t = 0 then Keypair 0x10 0x20 (Some (thread_fill 0 5))
      else Keypair 0x110 0x120 (Some (thread_fill 1 9)))"

definition two_regions :: "tid \<Rightarrow> addr set" where
  "two_regions t = (if t = 0 then buffer 0x10 0x20 else buffer 0x110 0x20)"

section \<open>The fallback loop\<close>


lemma zero_loop_from:
  "i \<le> outlen \<Longrightarrow>
   zero_loop out outlen i h = (\<lambda>a. if i \<le> a - out \<and> a - out < outlen then 0 else h a)"
proof (induction out outlen i h rule: zero_loop.induct)
  case (1 out outlen i h)
  show ?case
  proof (cases "i < outlen")
    case True
    then have le: "i + 1 \<le> outlen" by (rule inc_le)
    have step: "zero_loop out outlen i h = zero_loop out outlen (i + 1) (h(out + i := 0))"
      using True by (subst zero_loop.simps) simp
    have eq: "(if i + 1 \<le> a - out \<and> a - out < outlen then 0 else (h(out + i := 0)) a) =
          (if i \<le> a - out \<and> a - out < outlen then 0 else h a)" for a
    proof (cases "a - out = i")
      case True
      then have "a = out + i" by (simp add: diff_eq_eq add.commute)
      with True \<open>i < outlen\<close> show ?thesis by (auto simp: not_le)
    next
      case False
      then have "a \<noteq> out + i" by auto
      moreover have "i + 1 \<le> a - out \<longleftrightarrow> i \<le> a - out"
        using False \<open>i < outlen\<close> by unat_arith
      ultimately show ?thesis by simp
    qed
    have "zero_loop out outlen (i + 1) (h(out + i := 0)) =
          (\<lambda>a. if i + 1 \<le> a - out \<and> a - out < outlen then 0 else (h(out + i := 0)) a)"
      using "1.IH" [OF True le] .
    also have "\<dots> = (\<lambda>a. if i \<le> a - out \<and> a - out < outlen then 0 else h a)"
      using eq by (rule ext)
    finally show ?thesis using step by simp
  next
    case False
    with "1.prems" have "i = outlen" by simp
    then show ?thesis by (subst zero_loop.simps) (auto simp: fun_eq_iff)
  qed
qed

lemma zero_loop_zeroed: "zero_loop out outlen 0 h = zeroed out outlen h"
  by (simp add: zero_loop_from zeroed_def)

text \<open>The loop touches exactly \<open>outlen\<close> addresses.\<close>

lemma below_image: "d < n \<Longrightarrow> d \<in> word_of_nat ` {0..<unat n}" for d n :: size_t
proof -
  assume "d < n"
  then have "unat d < unat n" by (simp only: word_less_nat_alt)
  then have "unat d \<in> {0..<unat n}" by simp
  then have "word_of_nat (unat d) \<in> (word_of_nat ` {0..<unat n} :: size_t set)" by (rule imageI)
  then show "d \<in> word_of_nat ` {0..<unat n}" by simp
qed

lemma unat_below: "k < unat n \<Longrightarrow> unat (word_of_nat k :: size_t) = k" for n :: size_t
  by (rule le_unat_uoi [of k n]) simp

lemma of_nat_below: "k < unat n \<Longrightarrow> (word_of_nat k :: size_t) < n" for n :: size_t
  by (simp only: word_less_nat_alt unat_below)

lemma below_eq: "{d :: size_t. d < n} = word_of_nat ` {0..<unat n}"
proof (rule set_eqI, rule iffI)
  fix d :: size_t assume "d \<in> {d. d < n}"
  then have "d < n" by (rule CollectD)
  then show "d \<in> word_of_nat ` {0..<unat n}" by (rule below_image)
next
  fix d :: size_t assume "d \<in> word_of_nat ` {0..<unat n}"
  then obtain k where k: "k \<in> {0..<unat n}" and d: "d = word_of_nat k" by (rule imageE)
  from k have "k < unat n" by simp
  then have "(word_of_nat k :: size_t) < n" by (rule of_nat_below)
  with d show "d \<in> {d. d < n}" by (simp only: mem_Collect_eq)
qed

lemma below_inj: "inj_on (word_of_nat :: nat \<Rightarrow> size_t) {0..<unat n}" for n :: size_t
proof (rule inj_onI)
  fix a b assume a: "a \<in> {0..<unat n}" and b: "b \<in> {0..<unat n}"
    and e: "(word_of_nat a :: size_t) = word_of_nat b"
  from a have "a < unat n" by simp
  then have ua: "unat (word_of_nat a :: size_t) = a" by (rule unat_below)
  from b have "b < unat n" by simp
  then have ub: "unat (word_of_nat b :: size_t) = b" by (rule unat_below)
  from e have "unat (word_of_nat a :: size_t) = unat (word_of_nat b :: size_t)" by (rule arg_cong)
  then show "a = b" by (simp only: ua ub)
qed

lemma below_card: "card {d :: size_t. d < n} = unat n"
proof -
  have "card {d :: size_t. d < n} = card {0..<unat n}"
    by (simp only: below_eq card_image [OF below_inj])
  then show ?thesis by simp
qed

lemma region_eq: "{a :: addr. a - out < n} = (\<lambda>d. out + d) ` {d. d < n}"
proof (rule set_eqI, rule iffI)
  fix a assume "a \<in> {a. a - out < n}"
  then have "a - out \<in> {d. d < n}" by simp
  then have "out + (a - out) \<in> (\<lambda>d. out + d) ` {d. d < n}" by (rule imageI)
  then show "a \<in> (\<lambda>d. out + d) ` {d. d < n}" by simp
next
  fix a assume "a \<in> (\<lambda>d. out + d) ` {d. d < n}"
  then obtain d where "d < n" "a = out + d" by (auto elim: imageE)
  then show "a \<in> {a. a - out < n}" by simp
qed

lemma zeroed_region_card: "card {a :: addr. a - out < n} = unat n"
proof -
  have "inj_on (\<lambda>d. out + d) {d. d < n}" by (rule inj_onI) simp
  then have "card ((\<lambda>d. out + d) ` {d. d < n}) = card {d. d < n}" by (rule card_image)
  then show ?thesis by (simp only: region_eq below_card)
qed

lemma randombytes_empty:
  "tls_fill s t = None \<Longrightarrow> randombytes t out outlen s = s\<lparr>heap := zeroed out outlen (heap s)\<rparr>"
  by (simp add: randombytes_def zero_loop_zeroed)

lemma randombytes_installed:
  "tls_fill s t = Some f \<Longrightarrow>
   randombytes t out outlen s =
     s\<lparr>heap := fst (f out outlen (heap s, ext s)), ext := snd (f out outlen (heap s, ext s))\<rparr>"
  by (simp add: randombytes_def split: prod.splits)

lemma tls_fill_randombytes [simp]: "tls_fill (randombytes t out outlen s) = tls_fill s"
  by (simp add: randombytes_def split: option.splits prod.splits)

lemma tls_fill_PQCLEAN_randombytes [simp]:
  "tls_fill (PQCLEAN_randombytes t out outlen s) = tls_fill s"
  by (simp add: PQCLEAN_randombytes_def)

lemma tls_fill_exec [simp]: "tls_fill (fst (exec t p s)) = tls_fill s"
  by (induction p arbitrary: s) simp_all

section \<open>Frame and simulation lemmas\<close>

lemma tls_fill_set [simp]:
  "tls_fill (tt_set_randombytes t fill_fn s) = (tls_fill s)(t := fill_fn)"
  by (simp add: tt_set_randombytes_def)

lemma heap_set [simp]: "heap (tt_set_randombytes t fill_fn s) = heap s"
  by (simp add: tt_set_randombytes_def)

lemma ext_set [simp]: "ext (tt_set_randombytes t fill_fn s) = ext s"
  by (simp add: tt_set_randombytes_def)

lemma set_overwrites:
  "tt_set_randombytes t fill_fn (s\<lparr>tls_fill := (tls_fill s)(t := stale)\<rparr>) =
   tt_set_randombytes t fill_fn s"
  by (simp add: tt_set_randombytes_def)

lemma tls_fill_fills [simp]: "tls_fill (fills t rs s) = tls_fill s"
  by (induction t rs s rule: fills.induct) simp_all

lemma slots_seen_member: "x \<in> set (slots_seen t p s) \<Longrightarrow> x = tls_fill s t"
proof (induction p arbitrary: s)
  case (Return r)
  then show ?case by simp
next
  case (Load k)
  then show ?case by auto
next
  case (Store u p)
  from Store.IH [of "s\<lparr>heap := u (heap s)\<rparr>"] Store.prems show ?case by simp
next
  case (Call_randombytes out n p)
  from Call_randombytes.IH [of "randombytes t out n s"] Call_randombytes.prems
  show ?case by auto
next
  case (Call_PQCLEAN_randombytes out n p)
  from Call_PQCLEAN_randombytes.IH [of "PQCLEAN_randombytes t out n s"]
    Call_PQCLEAN_randombytes.prems
  show ?case by auto
qed

lemma slots_seen_replicate:
  "slots_seen t p s = replicate (length (slots_seen t p s)) (tls_fill s t)"
  by (rule sym, rule replicate_length_same) (simp add: slots_seen_member)

text \<open>A run that makes no fill call does not depend on the slots.\<close>

lemma exec_no_calls_rel:
  "slots_seen t p s = [] \<Longrightarrow> heap s' = heap s \<Longrightarrow> ext s' = ext s \<Longrightarrow>
   snd (exec t p s') = snd (exec t p s) \<and> heap (fst (exec t p s')) = heap (fst (exec t p s)) \<and>
   ext (fst (exec t p s')) = ext (fst (exec t p s))"
proof (induction p arbitrary: s s')
  case (Return r)
  then show ?case by simp
next
  case (Load k)
  from Load.prems have "slots_seen t (k (heap s)) s = []" by simp
  from Load.IH [OF rangeI this Load.prems(2,3)] show ?case
    using Load.prems by simp
next
  case (Store u p)
  from Store.prems have "slots_seen t p (s\<lparr>heap := u (heap s)\<rparr>) = []" by simp
  from Store.IH [OF this, of "s'\<lparr>heap := u (heap s')\<rparr>"] show ?case
    using Store.prems by simp
next
  case (Call_randombytes out n p)
  then show ?case by simp
next
  case (Call_PQCLEAN_randombytes out n p)
  then show ?case by simp
qed

lemma exec_no_calls:
  "slots_seen t p s = [] \<Longrightarrow>
   exec t p (s\<lparr>tls_fill := g\<rparr>) = (fst (exec t p s)\<lparr>tls_fill := g\<rparr>, snd (exec t p s))"
  using exec_no_calls_rel [of t p s "s\<lparr>tls_fill := g\<rparr>"]
  by (simp add: prod_eq_iff world.equality)

text \<open>Runs under two fill functions with identical streams stay in step.\<close>

lemma same_stream_step:
  assumes "same_stream f g x y"
  shows "fst (f out n (h, x)) = fst (g out n (h, y))"
    and "same_stream f g (snd (f out n (h, x))) (snd (g out n (h, y)))"
  using assms by (auto elim: same_stream.cases)

lemma exec_same_stream:
  "same_stream f g (ext s1) (ext s2) \<Longrightarrow> heap s1 = heap s2 \<Longrightarrow>
   tls_fill s1 t1 = Some f \<Longrightarrow> tls_fill s2 t2 = Some g \<Longrightarrow>
   snd (exec t1 p s1) = snd (exec t2 p s2) \<and>
   heap (fst (exec t1 p s1)) = heap (fst (exec t2 p s2))"
proof (induction p arbitrary: s1 s2)
  case (Return r)
  then show ?case by simp
next
  case (Load k)
  then show ?case by simp
next
  case (Store u p)
  then show ?case by simp
next
  case (Call_randombytes out n p)
  note st = same_stream_step [OF Call_randombytes.prems(1), of out n "heap s2"]
  show ?case
    using Call_randombytes.prems st
    by (simp add: randombytes_installed Call_randombytes.IH)
next
  case (Call_PQCLEAN_randombytes out n p)
  note st = same_stream_step [OF Call_PQCLEAN_randombytes.prems(1), of out n "heap s2"]
  show ?case
    using Call_PQCLEAN_randombytes.prems st
    by (simp add: PQCLEAN_randombytes_def randombytes_installed Call_PQCLEAN_randombytes.IH)
qed

text \<open>A run with the slot empty and a run under a zero-writing function stay in step.\<close>

lemma exec_zero_fill:
  "(\<And>out n h x. fst (z out n (h, x)) = zeroed out n h) \<Longrightarrow> heap s1 = heap s2 \<Longrightarrow>
   tls_fill s1 t1 = None \<Longrightarrow> tls_fill s2 t2 = Some z \<Longrightarrow>
   snd (exec t1 p s1) = snd (exec t2 p s2) \<and>
   heap (fst (exec t1 p s1)) = heap (fst (exec t2 p s2))"
  by (induction p arbitrary: s1 s2)
     (simp_all add: PQCLEAN_randombytes_def randombytes_installed randombytes_empty)

lemma const_fill_zero: "fst (const_fill 0 out n (h, x)) = zeroed out n h"
  by (simp add: const_fill_def zeroed_def)

lemma same_stream_const_counting: "same_stream (const_fill b) (counting_fill b) x y"
  by (coinduction arbitrary: x y) (simp add: const_fill_def counting_fill_def)

text \<open>Forgetting the log gives the run itself; the log grows by the reads of the run.\<close>

lemma exec_ev_erase:
  "fst (fst (exec_ev t p c)) = fst (exec t p (fst c)) \<and> snd (exec_ev t p c) = snd (exec t p (fst c))"
  by (induction p arbitrary: c)
     (simp_all add: randombytes_ev_def PQCLEAN_randombytes_ev_def PQCLEAN_randombytes_def)

lemma exec_ev_log:
  "snd (fst (exec_ev t p c)) = snd c @ map (\<lambda>q. (t, Fill_read q)) (slots_seen t p (fst c))"
  by (induction p arbitrary: c)
     (simp_all add: randombytes_ev_def PQCLEAN_randombytes_ev_def PQCLEAN_randombytes_def)

lemma set_ev_overwrites:
  "tt_set_randombytes_ev t fill_fn (s\<lparr>tls_fill := (tls_fill s)(t := stale)\<rparr>, l) =
   tt_set_randombytes_ev t fill_fn (s, l)"
  by (simp add: tt_set_randombytes_ev_def set_overwrites)

lemma first_read_slots_seen:
  "first_read (map (\<lambda>q. (t, Fill_read q)) (slots_seen t p s)) = None \<or>
   first_read (map (\<lambda>q. (t, Fill_read q)) (slots_seen t p s)) = Some (tls_fill s t)"
proof (cases "slots_seen t p s")
  case Nil
  then show ?thesis by simp
next
  case (Cons q qs)
  then have "q \<in> set (slots_seen t p s)" by simp
  then have "q = tls_fill s t" by (rule slots_seen_member)
  with Cons show ?thesis by simp
qed

lemma seeded_ev_log:
  "snd (fst (exec_ev t p (tt_set_randombytes_ev t fill_fn (s, [])))) =
     (t, Install fill_fn) #
       map (\<lambda>q. (t, Fill_read q)) (slots_seen t p (tt_set_randombytes t fill_fn s))"
  by (simp add: exec_ev_log tt_set_randombytes_ev_def)

lemma seeded_ev_first:
  "snd (fst (exec_ev t p (tt_set_randombytes_ev t fill_fn (s, [])))) =
     (t, Install fill_fn) # tl (snd (fst (exec_ev t p (tt_set_randombytes_ev t fill_fn (s, []))))) \<and>
   (first_read (tl (snd (fst (exec_ev t p (tt_set_randombytes_ev t fill_fn (s, [])))))) = None \<or>
    first_read (tl (snd (fst (exec_ev t p (tt_set_randombytes_ev t fill_fn (s, [])))))) =
      Some fill_fn)"
  using first_read_slots_seen [of t p "tt_set_randombytes t fill_fn s"]
  by (simp add: seeded_ev_log)

lemma seeded_ev_erase:
  "fst (fst (exec_ev t p (tt_set_randombytes_ev t fill_fn (s, l)))) =
     fst (exec t p (tt_set_randombytes t fill_fn s)) \<and>
   snd (exec_ev t p (tt_set_randombytes_ev t fill_fn (s, l))) =
     snd (exec t p (tt_set_randombytes t fill_fn s))"
  using exec_ev_erase [of t p "tt_set_randombytes_ev t fill_fn (s, l)"]
  by (simp add: tt_set_randombytes_ev_def)

section \<open>Independent contexts\<close>

lemma same_view_refl [simp]: "same_view t A s s"
  by (simp add: same_view_def agree_def)

lemma same_view_sym: "same_view t A s s' \<Longrightarrow> same_view t A s' s"
  by (simp add: same_view_def agree_def)

lemma same_view_trans: "same_view t A s s' \<Longrightarrow> same_view t A s' s'' \<Longrightarrow> same_view t A s s''"
  by (simp add: same_view_def agree_def)

text \<open>A fill call keeps the view of its own thread in step and leaves the others' alone.\<close>

lemma randombytes_local:
  assumes "same_view t A s s'" and "confined_ptr t A (tls_fill s t)" and "buffer out n \<subseteq> A"
  shows "same_view t A (randombytes t out n s) (randombytes t out n s')"
proof (cases "tls_fill s t")
  case None
  with assms(1) have "tls_fill s' t = None" by (simp add: same_view_def)
  with None assms(1) show ?thesis
    by (simp add: randombytes_empty same_view_def agree_def zeroed_def)
next
  case (Some f)
  with assms(1) have s': "tls_fill s' t = Some f" by (simp add: same_view_def)
  from Some assms(2) have cf: "confined_fill t A f" by (simp add: confined_ptr_def)
  from assms(1) have ag: "agree A (heap s) (heap s')" and ex: "ext s t = ext s' t"
    by (simp_all add: same_view_def)
  from cf assms(3) ag ex
  have "agree A (fst (f out n (heap s, ext s))) (fst (f out n (heap s', ext s'))) \<and>
        snd (f out n (heap s, ext s)) t = snd (f out n (heap s', ext s')) t"
    unfolding confined_fill_def by blast
  with Some s' show ?thesis
    by (simp add: randombytes_installed same_view_def)
qed

lemma randombytes_frame:
  assumes "t' \<noteq> t" and "A \<inter> A' = {}" and "confined_ptr t A (tls_fill s t)"
    and "buffer out n \<subseteq> A"
  shows "same_view t' A' (randombytes t out n s) s"
proof (cases "tls_fill s t")
  case None
  have "a \<in> A' \<Longrightarrow> \<not> a - out < n" for a
    using assms(2,4) by (auto simp: buffer_def)
  with None show ?thesis
    by (simp add: randombytes_empty same_view_def agree_def zeroed_def)
next
  case (Some f)
  from Some assms(3) have cf: "confined_fill t A f" by (simp add: confined_ptr_def)
  from cf assms(4)
  have 1: "\<And>a. a \<notin> A \<Longrightarrow> fst (f out n (heap s, ext s)) a = heap s a"
    and 2: "\<And>u. u \<noteq> t \<Longrightarrow> snd (f out n (heap s, ext s)) u = ext s u"
    unfolding confined_fill_def by blast+
  have "a \<in> A' \<Longrightarrow> a \<notin> A" for a using assms(2) by auto
  with 1 2 [OF assms(1)] Some show ?thesis
    by (simp add: randombytes_installed same_view_def agree_def)
qed

lemma set_local:
  "agree A (heap s) (heap s') \<Longrightarrow> ext s t = ext s' t \<Longrightarrow>
   same_view t A (tt_set_randombytes t p s) (tt_set_randombytes t p s')"
  by (simp add: same_view_def)

lemma set_frame: "t' \<noteq> t \<Longrightarrow> same_view t' A' (tt_set_randombytes t p s) s"
  by (simp add: same_view_def agree_def)

lemma store_local:
  "same_view t A s s' \<Longrightarrow> \<forall>h h'. agree A h h' \<longrightarrow> agree A (u h) (u h') \<Longrightarrow>
   same_view t A (s\<lparr>heap := u (heap s)\<rparr>) (s'\<lparr>heap := u (heap s')\<rparr>)"
  by (simp add: same_view_def)

lemma store_frame:
  "A \<inter> A' = {} \<Longrightarrow> \<forall>h a. a \<notin> A \<longrightarrow> u h a = h a \<Longrightarrow>
   same_view t' A' (s\<lparr>heap := u (heap s)\<rparr>) s"
  by (auto simp: same_view_def agree_def)

lemma exec_local:
  "confined A p \<Longrightarrow> confined_ptr t A (tls_fill s t) \<Longrightarrow> same_view t A s s' \<Longrightarrow>
   snd (exec t p s) = snd (exec t p s') \<and> same_view t A (fst (exec t p s)) (fst (exec t p s'))"
proof (induction p arbitrary: s s')
  case (Return r)
  then show ?case by simp
next
  case (Load k)
  from Load.prems(3) have "agree A (heap s) (heap s')" by (simp add: same_view_def)
  with Load.prems(1) have eq: "k (heap s) = k (heap s')" by simp
  from Load.prems(1) have "confined A (k (heap s))" by simp
  from Load.IH [OF rangeI this Load.prems(2,3)] eq show ?case by simp
next
  case (Store u p)
  from Store.prems(1) have c: "confined A p"
    and u: "\<forall>h h'. agree A h h' \<longrightarrow> agree A (u h) (u h')" by simp_all
  have v: "same_view t A (s\<lparr>heap := u (heap s)\<rparr>) (s'\<lparr>heap := u (heap s')\<rparr>)"
    using Store.prems(3) u by (rule store_local)
  from Store.prems(2) have "confined_ptr t A (tls_fill (s\<lparr>heap := u (heap s)\<rparr>) t)" by simp
  from Store.IH [OF c this v] show ?case by simp
next
  case (Call_randombytes out n p)
  from Call_randombytes.prems(1) have c: "confined A p" and b: "buffer out n \<subseteq> A" by simp_all
  have v: "same_view t A (randombytes t out n s) (randombytes t out n s')"
    using Call_randombytes.prems(3,2) b by (rule randombytes_local)
  from Call_randombytes.prems(2)
  have "confined_ptr t A (tls_fill (randombytes t out n s) t)" by simp
  from Call_randombytes.IH [OF c this v] show ?case by simp
next
  case (Call_PQCLEAN_randombytes out n p)
  from Call_PQCLEAN_randombytes.prems(1) have c: "confined A p" and b: "buffer out n \<subseteq> A"
    by simp_all
  have v: "same_view t A (randombytes t out n s) (randombytes t out n s')"
    using Call_PQCLEAN_randombytes.prems(3,2) b by (rule randombytes_local)
  from Call_PQCLEAN_randombytes.prems(2)
  have "confined_ptr t A (tls_fill (randombytes t out n s) t)" by simp
  from Call_PQCLEAN_randombytes.IH [OF c this v] show ?case
    by (simp add: PQCLEAN_randombytes_def)
qed

lemma exec_frame:
  "confined A p \<Longrightarrow> confined_ptr t A (tls_fill s t) \<Longrightarrow> t' \<noteq> t \<Longrightarrow> A \<inter> A' = {} \<Longrightarrow>
   same_view t' A' (fst (exec t p s)) s"
proof (induction p arbitrary: s)
  case (Return r)
  then show ?case by simp
next
  case (Load k)
  from Load.prems(1) have "confined A (k (heap s))" by simp
  from Load.IH [OF rangeI this Load.prems(2,3,4)] show ?case by simp
next
  case (Store u p)
  from Store.prems(1) have c: "confined A p"
    and u: "\<forall>h a. a \<notin> A \<longrightarrow> u h a = h a" by simp_all
  have v: "same_view t' A' (s\<lparr>heap := u (heap s)\<rparr>) s"
    using Store.prems(4) u by (rule store_frame)
  from Store.prems(2) have "confined_ptr t A (tls_fill (s\<lparr>heap := u (heap s)\<rparr>) t)" by simp
  from Store.IH [OF c this Store.prems(3,4)] v show ?case
    by (auto intro: same_view_trans)
next
  case (Call_randombytes out n p)
  from Call_randombytes.prems(1) have c: "confined A p" and b: "buffer out n \<subseteq> A" by simp_all
  have v: "same_view t' A' (randombytes t out n s) s"
    using Call_randombytes.prems(3,4,2) b by (rule randombytes_frame)
  from Call_randombytes.prems(2)
  have "confined_ptr t A (tls_fill (randombytes t out n s) t)" by simp
  from Call_randombytes.IH [OF c this Call_randombytes.prems(3,4)] v show ?case
    by (auto intro: same_view_trans)
next
  case (Call_PQCLEAN_randombytes out n p)
  from Call_PQCLEAN_randombytes.prems(1) have c: "confined A p" and b: "buffer out n \<subseteq> A"
    by simp_all
  have v: "same_view t' A' (randombytes t out n s) s"
    using Call_PQCLEAN_randombytes.prems(3,4,2) b by (rule randombytes_frame)
  from Call_PQCLEAN_randombytes.prems(2)
  have "confined_ptr t A (tls_fill (randombytes t out n s) t)" by simp
  from Call_PQCLEAN_randombytes.IH [OF c this Call_PQCLEAN_randombytes.prems(3,4)] v
  show ?case by (auto simp: PQCLEAN_randombytes_def intro: same_view_trans)
qed

lemma seeded_call_exec:
  "seeded_call lib t cl s = exec t (routine_of lib cl) (tt_set_randombytes t (fill_of cl) s)"
  by (cases cl) (simp_all add: tt_falcon512_keypair_seeded_def tt_falcon512_sign_seeded_def)

lemma seeded_call_local:
  assumes "confined A (routine_of lib cl)" and "confined_ptr t A (fill_of cl)"
    and "agree A (heap s) (heap s')" and "ext s t = ext s' t"
  shows "snd (seeded_call lib t cl s) = snd (seeded_call lib t cl s') \<and>
         same_view t A (fst (seeded_call lib t cl s)) (fst (seeded_call lib t cl s'))"
  unfolding seeded_call_exec
  by (rule exec_local [OF assms(1)]) (simp_all add: assms set_local)

lemma seeded_call_frame:
  assumes "confined A (routine_of lib cl)" and "confined_ptr t A (fill_of cl)"
    and "t' \<noteq> t" and "A \<inter> A' = {}"
  shows "same_view t' A' (fst (seeded_call lib t cl s)) s"
proof -
  have "same_view t' A' (fst (exec t (routine_of lib cl) (tt_set_randombytes t (fill_of cl) s)))
          (tt_set_randombytes t (fill_of cl) s)"
    by (rule exec_frame [OF assms(1) _ assms(3,4)]) (simp add: assms(2))
  moreover have "same_view t' A' (tt_set_randombytes t (fill_of cl) s) s"
    using assms(3) by (rule set_frame)
  ultimately show ?thesis unfolding seeded_call_exec by (rule same_view_trans)
qed

lemma independentD:
  assumes "independent lib calls A T" and "t \<in> T"
  shows "confined (A t) (routine_of lib (calls t))" and "confined_ptr t (A t) (fill_of (calls t))"
    and "t' \<in> T \<Longrightarrow> t' \<noteq> t \<Longrightarrow> A t \<inter> A t' = {}"
  using assms by (auto simp: independent_def)

text \<open>Calls made one after the other.\<close>

lemma seq_calls_frame:
  "independent lib calls A T \<Longrightarrow> set ts \<subseteq> T \<Longrightarrow> t \<in> T \<Longrightarrow> t \<notin> set ts \<Longrightarrow>
   same_view t (A t) (fst (seq_calls lib calls ts c)) (fst c) \<and>
   snd (seq_calls lib calls ts c) t = snd c t"
proof (induction ts arbitrary: c)
  case Nil
  then show ?case by simp
next
  case (Cons u ts)
  let ?c1 = "(fst (seeded_call lib u (calls u) (fst c)),
              (snd c)(u := Some (snd (seeded_call lib u (calls u) (fst c)))))"
  from Cons.prems have u: "u \<in> T" "u \<noteq> t" "set ts \<subseteq> T" "t \<notin> set ts" by auto
  have "same_view t (A t) (fst (seeded_call lib u (calls u) (fst c))) (fst c)"
    using independentD [OF Cons.prems(1) u(1)] Cons.prems(3) u(2)
    by (intro seeded_call_frame) auto
  moreover from Cons.IH [OF Cons.prems(1) u(3) Cons.prems(3) u(4), of ?c1]
  have "same_view t (A t) (fst (seq_calls lib calls ts ?c1)) (fst ?c1)"
    and "snd (seq_calls lib calls ts ?c1) t = snd ?c1 t" by simp_all
  ultimately show ?case using u(2) by (auto intro: same_view_trans)
qed

lemma seq_calls_alone:
  "independent lib calls A T \<Longrightarrow> set ts \<subseteq> T \<Longrightarrow> distinct ts \<Longrightarrow> t \<in> set ts \<Longrightarrow>
   snd (seq_calls lib calls ts c) t = Some (snd (seeded_call lib t (calls t) (fst c))) \<and>
   same_view t (A t) (fst (seq_calls lib calls ts c)) (fst (seeded_call lib t (calls t) (fst c)))"
proof (induction ts arbitrary: c)
  case Nil
  then show ?case by simp
next
  case (Cons u ts)
  let ?c1 = "(fst (seeded_call lib u (calls u) (fst c)),
              (snd c)(u := Some (snd (seeded_call lib u (calls u) (fst c)))))"
  from Cons.prems have T: "u \<in> T" "set ts \<subseteq> T" "distinct ts" "u \<notin> set ts" by auto
  show ?case
  proof (cases "u = t")
    case True
    from seq_calls_frame [OF Cons.prems(1) T(2) T(1) T(4), of ?c1] True
    show ?thesis by simp
  next
    case False
    with Cons.prems have t: "t \<in> set ts" "t \<in> T" by auto
    note ind = independentD [OF Cons.prems(1) t(2)]
    have v: "same_view t (A t) (fst (seeded_call lib u (calls u) (fst c))) (fst c)"
      using independentD [OF Cons.prems(1) T(1)] t(2) False
      by (intro seeded_call_frame) auto
    then have loc: "snd (seeded_call lib t (calls t) (fst ?c1)) =
          snd (seeded_call lib t (calls t) (fst c)) \<and>
        same_view t (A t) (fst (seeded_call lib t (calls t) (fst ?c1)))
          (fst (seeded_call lib t (calls t) (fst c)))"
      by (intro seeded_call_local ind) (simp_all add: same_view_def)
    from Cons.IH [OF Cons.prems(1) T(2) T(3) t(1), of ?c1] loc
    show ?thesis by (auto intro: same_view_trans)
  qed
qed

text \<open>Steps of a schedule.\<close>

lemma outcome_own: "outcome lib t (sched_step lib t cfg) = outcome lib t cfg"
proof (cases "snd cfg t")
  case (Entering cl)
  then show ?thesis
    by (simp add: outcome_def sched_step_def seeded_call_exec tt_set_randombytes_ev_def)
next
  case (Inside r)
  then show ?thesis
    by (cases r)
       (simp_all add: outcome_def sched_step_def randombytes_ev_def PQCLEAN_randombytes_ev_def
          PQCLEAN_randombytes_def)
qed

lemma sched_step_other: "u \<noteq> t \<Longrightarrow> snd (sched_step lib u cfg) t = snd cfg t"
  by (simp add: sched_step_def)

lemma sched_step_slot_other:
  "u \<noteq> t \<Longrightarrow> tls_fill (fst (fst (sched_step lib u cfg))) t = tls_fill (fst (fst cfg)) t"
proof (cases "snd cfg u")
  case (Entering cl)
  assume "u \<noteq> t"
  with Entering show ?thesis by (simp add: sched_step_def tt_set_randombytes_ev_def)
next
  case (Inside r)
  then show ?thesis
    by (cases r)
       (simp_all add: sched_step_def randombytes_ev_def PQCLEAN_randombytes_ev_def)
qed

lemma sched_step_view:
  assumes "independent lib calls A T" and "task_inv lib calls A T cfg"
    and "u \<in> T" and "t \<in> T" and "u \<noteq> t"
  shows "same_view t (A t) (fst (fst (sched_step lib u cfg))) (fst (fst cfg))"
proof (cases "snd cfg u")
  case (Entering cl)
  with assms(5) show ?thesis
    by (simp add: sched_step_def tt_set_randombytes_ev_def set_frame)
next
  case (Inside r)
  with assms(2,3) have c: "confined (A u) r"
    and sl: "tls_fill (fst (fst cfg)) u = fill_of (calls u)"
    by (auto simp: task_inv_def)
  from independentD [OF assms(1,3)] assms(4,5)
  have cp: "confined_ptr u (A u) (fill_of (calls u))" and dj: "A u \<inter> A t = {}" by auto
  show ?thesis
  proof (cases r)
    case (Return x)
    with Inside show ?thesis by (simp add: sched_step_def)
  next
    case (Load k)
    with Inside show ?thesis by (simp add: sched_step_def)
  next
    case (Store f p)
    with c have "\<forall>h a. a \<notin> A u \<longrightarrow> f h a = h a" by simp
    with dj have "same_view t (A t) ((fst (fst cfg))\<lparr>heap := f (heap (fst (fst cfg)))\<rparr>)
        (fst (fst cfg))" by (rule store_frame)
    with Inside Store show ?thesis by (simp add: sched_step_def)
  next
    case (Call_randombytes out n p)
    with c have "buffer out n \<subseteq> A u" by simp
    with assms(5) dj cp sl
    have "same_view t (A t) (randombytes u out n (fst (fst cfg))) (fst (fst cfg))"
      by (intro randombytes_frame [where A = "A u"]) auto
    with Inside Call_randombytes show ?thesis
      by (simp add: sched_step_def randombytes_ev_def)
  next
    case (Call_PQCLEAN_randombytes out n p)
    with c have "buffer out n \<subseteq> A u" by simp
    with assms(5) dj cp sl
    have "same_view t (A t) (randombytes u out n (fst (fst cfg))) (fst (fst cfg))"
      by (intro randombytes_frame [where A = "A u"]) auto
    with Inside Call_PQCLEAN_randombytes show ?thesis
      by (simp add: sched_step_def randombytes_ev_def PQCLEAN_randombytes_ev_def)
  qed
qed

lemma task_inv_step:
  assumes "independent lib calls A T" and "task_inv lib calls A T cfg" and "u \<in> T"
  shows "task_inv lib calls A T (sched_step lib u cfg)"
  unfolding task_inv_def
proof
  fix t assume t: "t \<in> T"
  show "case snd (sched_step lib u cfg) t of
          Entering cl \<Rightarrow> cl = calls t
        | Inside r \<Rightarrow> confined (A t) r \<and>
            tls_fill (fst (fst (sched_step lib u cfg))) t = fill_of (calls t)"
  proof (cases "u = t")
    case False
    from assms(2) t have "case snd cfg t of
          Entering cl \<Rightarrow> cl = calls t
        | Inside r \<Rightarrow> confined (A t) r \<and> tls_fill (fst (fst cfg)) t = fill_of (calls t)"
      by (simp add: task_inv_def)
    with False show ?thesis
      by (simp add: sched_step_other sched_step_slot_other split: task.splits)
  next
    case True
    show ?thesis
    proof (cases "snd cfg t")
      case (Entering cl)
      with assms(2) t have "cl = calls t" by (auto simp: task_inv_def)
      with Entering True independentD(1) [OF assms(1) t] show ?thesis
        by (simp add: sched_step_def tt_set_randombytes_ev_def)
    next
      case (Inside r)
      with assms(2) t have c: "confined (A t) r"
        and sl: "tls_fill (fst (fst cfg)) t = fill_of (calls t)"
        by (auto simp: task_inv_def)
      with Inside True show ?thesis
        by (cases r)
           (simp_all add: sched_step_def randombytes_ev_def PQCLEAN_randombytes_ev_def)
    qed
  qed
qed

lemma outcome_other:
  assumes "independent lib calls A T" and "task_inv lib calls A T cfg" and "t \<in> T"
    and "snd cfg' t = snd cfg t"
    and "same_view t (A t) (fst (fst cfg')) (fst (fst cfg))"
  shows "snd (outcome lib t cfg') = snd (outcome lib t cfg) \<and>
         same_view t (A t) (fst (outcome lib t cfg')) (fst (outcome lib t cfg))"
proof (cases "snd cfg t")
  case (Entering cl)
  with assms(2,3) have cl: "cl = calls t" by (auto simp: task_inv_def)
  from assms(5) have "agree (A t) (heap (fst (fst cfg'))) (heap (fst (fst cfg)))"
    and "ext (fst (fst cfg')) t = ext (fst (fst cfg)) t" by (simp_all add: same_view_def)
  with independentD(1,2) [OF assms(1,3)] Entering cl assms(4) show ?thesis
    by (simp add: outcome_def seeded_call_local)
next
  case (Inside r)
  with assms(2,3) have c: "confined (A t) r"
    and sl: "tls_fill (fst (fst cfg)) t = fill_of (calls t)"
    by (auto simp: task_inv_def)
  from assms(5) sl have "tls_fill (fst (fst cfg')) t = fill_of (calls t)"
    by (simp add: same_view_def)
  with independentD(2) [OF assms(1,3)]
  have "confined_ptr t (A t) (tls_fill (fst (fst cfg')) t)" by simp
  from exec_local [OF c this assms(5)] Inside assms(4) show ?thesis
    by (simp add: outcome_def)
qed

lemma run_outcome:
  "independent lib calls A T \<Longrightarrow> task_inv lib calls A T cfg \<Longrightarrow> set sched \<subseteq> T \<Longrightarrow> t \<in> T \<Longrightarrow>
   snd (outcome lib t (run lib sched cfg)) = snd (outcome lib t cfg) \<and>
   same_view t (A t) (fst (outcome lib t (run lib sched cfg))) (fst (outcome lib t cfg))"
proof (induction sched arbitrary: cfg)
  case Nil
  then show ?case by simp
next
  case (Cons u sched)
  from Cons.prems have u: "u \<in> T" "set sched \<subseteq> T" by auto
  have inv: "task_inv lib calls A T (sched_step lib u cfg)"
    using Cons.prems(1,2) u(1) by (rule task_inv_step)
  note ih = Cons.IH [OF Cons.prems(1) inv u(2) Cons.prems(4)]
  have one: "snd (outcome lib t (sched_step lib u cfg)) = snd (outcome lib t cfg) \<and>
      same_view t (A t) (fst (outcome lib t (sched_step lib u cfg))) (fst (outcome lib t cfg))"
  proof (cases "u = t")
    case True
    then show ?thesis by (simp add: outcome_own)
  next
    case False
    show ?thesis
      using Cons.prems(1,2,4) sched_step_other [OF False]
        sched_step_view [OF Cons.prems(1,2) u(1) Cons.prems(4) False]
      by (rule outcome_other)
  qed
  from ih one show ?case by (auto intro: same_view_trans)
qed

lemma outcome_returned:
  "returned (snd cfg t) = Some r \<Longrightarrow> outcome lib t cfg = (fst (fst cfg), r)"
proof -
  assume a: "returned (snd cfg t) = Some r"
  then have "snd cfg t = Inside (Return r)"
    by (cases "snd cfg t" rule: returned.cases) simp_all
  then show ?thesis by (simp add: outcome_def)
qed

lemma task_inv_initial: "task_inv lib calls A T ((s, l), \<lambda>t. Entering (calls t))"
  by (simp add: task_inv_def)

text \<open>The log of a schedule.\<close>

lemma last_install_snoc_install:
  "last_install t (l @ [(u, Install p)]) = (if u = t then Some p else last_install t l)"
  by (induction t l rule: last_install.induct) simp_all

lemma last_install_snoc_read: "last_install t (l @ [(u, Fill_read p)]) = last_install t l"
  by (induction t l rule: last_install.induct) simp_all

lemma reads_own_snoc:
  assumes "reads_own l" and "\<And>t q. e = (t, Fill_read q) \<Longrightarrow> last_install t l = Some q"
  shows "reads_own (l @ [e])"
  unfolding reads_own_def
proof (intro allI impI)
  fix i t q
  assume i: "i < length (l @ [e])" and r: "(l @ [e]) ! i = (t, Fill_read q)"
  show "last_install t (take i (l @ [e])) = Some q"
  proof (cases "i < length l")
    case True
    with r have "l ! i = (t, Fill_read q)" by (simp add: nth_append)
    with assms(1) True have "last_install t (take i l) = Some q" by (simp add: reads_own_def)
    with True show ?thesis by simp
  next
    case False
    with i have "i = length l" by simp
    with r assms(2) show ?thesis by simp
  qed
qed

lemma log_inv_step:
  assumes "log_inv cfg"
  shows "log_inv (sched_step lib u cfg)"
proof (cases "snd cfg u")
  case (Entering cl)
  from assms have "reads_own (snd (fst cfg) @ [(u, Install (fill_of cl))])"
    by (intro reads_own_snoc) (simp_all add: log_inv_def)
  with assms Entering show ?thesis
    by (simp add: log_inv_def sched_step_def tt_set_randombytes_ev_def last_install_snoc_install)
next
  case (Inside r)
  with assms have li: "last_install u (snd (fst cfg)) = Some (tls_fill (fst (fst cfg)) u)"
    by (simp add: log_inv_def)
  from assms li
  have ro: "reads_own (snd (fst cfg) @ [(u, Fill_read (tls_fill (fst (fst cfg)) u))])"
    by (intro reads_own_snoc) (simp_all add: log_inv_def)
  from assms Inside ro show ?thesis
    by (cases r)
       (simp_all add: log_inv_def sched_step_def randombytes_ev_def PQCLEAN_randombytes_ev_def
          last_install_snoc_read)
qed

lemma log_inv_run: "log_inv cfg \<Longrightarrow> log_inv (run lib sched cfg)"
  by (induction sched arbitrary: cfg) (simp_all add: log_inv_step)

lemma log_inv_initial: "log_inv ((s, []), \<lambda>t. Entering (calls t))"
  by (simp add: log_inv_def reads_own_def)

text \<open>The two-thread instance.\<close>

lemma thread_fill_confined: "confined_fill t A (thread_fill t b)"
  by (auto simp: confined_fill_def thread_fill_def agree_def buffer_def)

lemma far_apart: "\<not> (a - 0x10 < 0x20 \<and> a - 0x110 < 0x20)" for a :: addr
proof
  assume h: "a - 0x10 < 0x20 \<and> a - 0x110 < 0x20"
  define d where "d = a - 0x110"
  have e: "a - 0x10 = d + 0x100" by (simp add: d_def)
  from h have "unat d < 32" by (simp add: d_def word_less_nat_alt)
  then have "unat d + unat (0x100 :: addr) < 2 ^ LENGTH(64)" by simp
  then have "unat (d + 0x100) = unat d + unat (0x100 :: addr)" by (simp only: unat_add_lem)
  then have "unat (a - 0x10) = unat d + 256" by (simp add: e)
  moreover from h have "unat (a - 0x10) < 32" by (simp add: word_less_nat_alt)
  ultimately show False by simp
qed

lemma regions_disjoint: "buffer 0x10 0x20 \<inter> buffer 0x110 0x20 = {}"
  using far_apart by (auto simp: buffer_def)

lemma toy_keypair_confined:
  "buffer pk 2 \<subseteq> A \<Longrightarrow> sk \<in> A \<Longrightarrow>
   confined A (PQCLEAN_FALCON512_CLEAN_crypto_sign_keypair toy_pqclean pk sk)"
proof -
  assume b: "buffer pk 2 \<subseteq> A" and sk: "sk \<in> A"
  have "pk \<in> buffer pk 2" by (simp add: buffer_def)
  with b have "pk \<in> A" by blast
  with b sk show ?thesis by (auto simp: toy_pqclean_def agree_def)
qed

lemma two_independent: "independent toy_pqclean two_calls two_regions (set [0, 1])"
proof -
  have a: "buffer 0x10 2 \<subseteq> buffer 0x10 0x20" "buffer 0x110 2 \<subseteq> buffer 0x110 0x20"
    by (auto simp: buffer_def elim: order_less_trans)
  have b: "(0x20 :: addr) \<in> buffer 0x10 0x20" "(0x120 :: addr) \<in> buffer 0x110 0x20"
    by (simp_all add: buffer_def)
  from regions_disjoint have c: "buffer 0x110 0x20 \<inter> buffer 0x10 0x20 = {}" by blast
  show ?thesis
    using a b c regions_disjoint
    by (simp add: independent_def two_calls_def two_regions_def toy_keypair_confined
        confined_ptr_def thread_fill_confined)
qed

lemma two_run_returned:
  "returned (snd (run toy_pqclean [0, 1, 1, 0, 1, 0, 0, 1]
      ((initial_world (\<lambda>a. 0) (\<lambda>t. 0), []), \<lambda>t. Entering (two_calls t))) 0) = Some 0 \<and>
   returned (snd (run toy_pqclean [0, 1, 1, 0, 1, 0, 0, 1]
      ((initial_world (\<lambda>a. 0) (\<lambda>t. 0), []), \<lambda>t. Entering (two_calls t))) 1) = Some 0"
  by (simp add: sched_step_def two_calls_def toy_pqclean_def)

lemma two_run_heap:
  "heap (fst (fst (run toy_pqclean [0, 1, 1, 0, 1, 0, 0, 1]
      ((initial_world (\<lambda>a. 0) (\<lambda>t. 0), []), \<lambda>t. Entering (two_calls t))))) 0x20 = 6 \<and>
   heap (fst (fst (run toy_pqclean [0, 1, 1, 0, 1, 0, 0, 1]
      ((initial_world (\<lambda>a. 0) (\<lambda>t. 0), []), \<lambda>t. Entering (two_calls t))))) 0x120 = 10 \<and>
   map fst (snd (fst (run toy_pqclean [0, 1, 1, 0, 1, 0, 0, 1]
      ((initial_world (\<lambda>a. 0) (\<lambda>t. 0), []), \<lambda>t. Entering (two_calls t))))) = [0, 1, 1, 0]"
  by (simp add: sched_step_def two_calls_def toy_pqclean_def tt_set_randombytes_ev_def
      randombytes_ev_def randombytes_def tt_set_randombytes_def thread_fill_def
      initial_world_def)

section \<open>The entropy slot\<close>


text \<open>
  Claim C1. For every buffer and length, \<open>randombytes\<close> run by thread \<open>t\<close> calls the function
  installed in \<open>t\<close>'s slot with exactly that buffer and length and leaves memory and the
  owner's state as that function returns them; with no function installed it writes zero
  at the \<open>outlen\<close> addresses \<open>out\<close>, \<open>out + 1\<close>, ... and changes nothing else. Either way
  the result is determined by the state and the arguments: there is no other source of
  bytes.
\<close>

theorem randombytes_contract:
  "randombytes t out outlen s =
     (case tls_fill s t of
        Some f \<Rightarrow> s\<lparr>heap := fst (f out outlen (heap s, ext s)),
                   ext := snd (f out outlen (heap s, ext s))\<rparr>
      | None \<Rightarrow> s\<lparr>heap := (\<lambda>a. if a - out < outlen then 0 else heap s a)\<rparr>) \<and>
   card {a. a - out < outlen} = unat outlen"
  by (simp add: randombytes_empty randombytes_installed zeroed_def zeroed_region_card
      split: option.splits)

theorem randombytes_contract_witness:
  "heap (randombytes 0 0x1000 4 (initial_world (\<lambda>a. 0xFF) (0::nat))) 0x1003 = 0 \<and>
   heap (randombytes 0 0x1000 4 (initial_world (\<lambda>a. 0xFF) (0::nat))) 0x1004 = 0xFF \<and>
   heap (randombytes 0 0x1000 4 (initial_world (\<lambda>a. 0xFF) (0::nat))) 0xFFF = 0xFF \<and>
   heap (randombytes 0 0x1000 2
     (tt_set_randombytes 0 (Some (\<lambda>out n (h, x). (h(out := 7), Suc x)))
       (initial_world (\<lambda>a. 0xFF) (0::nat)))) 0x1000 = 7"
  using randombytes_contract [of 0 "0x1000" 4 "initial_world (\<lambda>a. 0xFF) (0::nat)"]
    randombytes_contract [of 0 "0x1000" 2
      "tt_set_randombytes 0 (Some (\<lambda>out n (h, x). (h(out := 7), Suc x)))
         (initial_world (\<lambda>a. 0xFF) (0::nat))"]
  by (simp add: initial_world_def tt_set_randombytes_def)

text \<open>
  Claim C9. \<open>PQCLEAN_randombytes\<close> forwards to \<open>randombytes\<close>: for every thread, buffer,
  length and state the two entry points give the same state, and a routine that asks
  under one name behaves as the routine that asks under the other.
\<close>

theorem PQCLEAN_randombytes_same:
  "PQCLEAN_randombytes t out outlen s = randombytes t out outlen s \<and>
   exec t (rename_calls p) s = exec t p s"
proof
  show "PQCLEAN_randombytes t out outlen s = randombytes t out outlen s"
    by (simp add: PQCLEAN_randombytes_def)
  show "exec t (rename_calls p) s = exec t p s"
    by (induction p arbitrary: s) (simp_all add: PQCLEAN_randombytes_def)
qed

section \<open>The seeded operations\<close>

text \<open>
  Claim C2. Within one call of \<open>tt_falcon512_keypair_seeded\<close> or \<open>tt_falcon512_sign_seeded\<close>
  the store of the caller's pointer comes before the routine's first fill: the log of the
  call begins with that store, the first read of the slot, if the routine makes one, reads
  the caller's pointer, and log, status and state are the same whatever an earlier call
  left in the thread's slot. Forgetting the log, the logged wrappers are the wrappers.
\<close>

theorem install_precedes_fill:
  "fst (fst (tt_falcon512_keypair_seeded_ev lib t pk sk fill_fn (s, []))) =
     fst (tt_falcon512_keypair_seeded lib t pk sk fill_fn s) \<and>
   snd (tt_falcon512_keypair_seeded_ev lib t pk sk fill_fn (s, [])) =
     snd (tt_falcon512_keypair_seeded lib t pk sk fill_fn s) \<and>
   snd (fst (tt_falcon512_keypair_seeded_ev lib t pk sk fill_fn (s, []))) =
     (t, Install fill_fn) #
       tl (snd (fst (tt_falcon512_keypair_seeded_ev lib t pk sk fill_fn (s, [])))) \<and>
   (first_read (tl (snd (fst (tt_falcon512_keypair_seeded_ev lib t pk sk fill_fn (s, []))))) =
      None \<or>
    first_read (tl (snd (fst (tt_falcon512_keypair_seeded_ev lib t pk sk fill_fn (s, []))))) =
      Some fill_fn) \<and>
   tt_falcon512_keypair_seeded_ev lib t pk sk fill_fn
       (s\<lparr>tls_fill := (tls_fill s)(t := stale)\<rparr>, l) =
     tt_falcon512_keypair_seeded_ev lib t pk sk fill_fn (s, l) \<and>
   tt_falcon512_keypair_seeded lib t pk sk fill_fn (s\<lparr>tls_fill := (tls_fill s)(t := stale)\<rparr>) =
     tt_falcon512_keypair_seeded lib t pk sk fill_fn s \<and>
   fst (fst (tt_falcon512_sign_seeded_ev lib t sig siglen m mlen sk fill_fn (s, []))) =
     fst (tt_falcon512_sign_seeded lib t sig siglen m mlen sk fill_fn s) \<and>
   snd (tt_falcon512_sign_seeded_ev lib t sig siglen m mlen sk fill_fn (s, [])) =
     snd (tt_falcon512_sign_seeded lib t sig siglen m mlen sk fill_fn s) \<and>
   snd (fst (tt_falcon512_sign_seeded_ev lib t sig siglen m mlen sk fill_fn (s, []))) =
     (t, Install fill_fn) #
       tl (snd (fst (tt_falcon512_sign_seeded_ev lib t sig siglen m mlen sk fill_fn (s, [])))) \<and>
   (first_read
      (tl (snd (fst (tt_falcon512_sign_seeded_ev lib t sig siglen m mlen sk fill_fn (s, []))))) =
      None \<or>
    first_read
      (tl (snd (fst (tt_falcon512_sign_seeded_ev lib t sig siglen m mlen sk fill_fn (s, []))))) =
      Some fill_fn) \<and>
   tt_falcon512_sign_seeded_ev lib t sig siglen m mlen sk fill_fn
       (s\<lparr>tls_fill := (tls_fill s)(t := stale)\<rparr>, l) =
     tt_falcon512_sign_seeded_ev lib t sig siglen m mlen sk fill_fn (s, l) \<and>
   tt_falcon512_sign_seeded lib t sig siglen m mlen sk fill_fn
       (s\<lparr>tls_fill := (tls_fill s)(t := stale)\<rparr>) =
     tt_falcon512_sign_seeded lib t sig siglen m mlen sk fill_fn s"
proof -
  note kp = seeded_ev_first [of t "PQCLEAN_FALCON512_CLEAN_crypto_sign_keypair lib pk sk" fill_fn s]
    seeded_ev_erase [of t "PQCLEAN_FALCON512_CLEAN_crypto_sign_keypair lib pk sk" fill_fn s "[]"]
  note sg = seeded_ev_first [of t "PQCLEAN_FALCON512_CLEAN_crypto_sign_signature lib sig siglen m mlen sk" fill_fn s]
    seeded_ev_erase [of t "PQCLEAN_FALCON512_CLEAN_crypto_sign_signature lib sig siglen m mlen sk" fill_fn s "[]"]
  have k: "fst (fst (tt_falcon512_keypair_seeded_ev lib t pk sk fill_fn (s, []))) =
        fst (tt_falcon512_keypair_seeded lib t pk sk fill_fn s) \<and>
      snd (tt_falcon512_keypair_seeded_ev lib t pk sk fill_fn (s, [])) =
        snd (tt_falcon512_keypair_seeded lib t pk sk fill_fn s) \<and>
      snd (fst (tt_falcon512_keypair_seeded_ev lib t pk sk fill_fn (s, []))) =
        (t, Install fill_fn) #
          tl (snd (fst (tt_falcon512_keypair_seeded_ev lib t pk sk fill_fn (s, [])))) \<and>
      (first_read (tl (snd (fst (tt_falcon512_keypair_seeded_ev lib t pk sk fill_fn (s, []))))) =
         None \<or>
       first_read (tl (snd (fst (tt_falcon512_keypair_seeded_ev lib t pk sk fill_fn (s, []))))) =
         Some fill_fn)"
    unfolding tt_falcon512_keypair_seeded_ev_def tt_falcon512_keypair_seeded_def
    using kp by blast
  have g: "fst (fst (tt_falcon512_sign_seeded_ev lib t sig siglen m mlen sk fill_fn (s, []))) =
        fst (tt_falcon512_sign_seeded lib t sig siglen m mlen sk fill_fn s) \<and>
      snd (tt_falcon512_sign_seeded_ev lib t sig siglen m mlen sk fill_fn (s, [])) =
        snd (tt_falcon512_sign_seeded lib t sig siglen m mlen sk fill_fn s) \<and>
      snd (fst (tt_falcon512_sign_seeded_ev lib t sig siglen m mlen sk fill_fn (s, []))) =
        (t, Install fill_fn) #
          tl (snd (fst (tt_falcon512_sign_seeded_ev lib t sig siglen m mlen sk fill_fn (s, [])))) \<and>
      (first_read
         (tl (snd (fst (tt_falcon512_sign_seeded_ev lib t sig siglen m mlen sk fill_fn (s, []))))) =
         None \<or>
       first_read
         (tl (snd (fst (tt_falcon512_sign_seeded_ev lib t sig siglen m mlen sk fill_fn (s, []))))) =
         Some fill_fn)"
    unfolding tt_falcon512_sign_seeded_ev_def tt_falcon512_sign_seeded_def
    using sg by blast
  have st: "tt_falcon512_keypair_seeded_ev lib t pk sk fill_fn
        (s\<lparr>tls_fill := (tls_fill s)(t := stale)\<rparr>, l) =
      tt_falcon512_keypair_seeded_ev lib t pk sk fill_fn (s, l) \<and>
    tt_falcon512_keypair_seeded lib t pk sk fill_fn (s\<lparr>tls_fill := (tls_fill s)(t := stale)\<rparr>) =
      tt_falcon512_keypair_seeded lib t pk sk fill_fn s \<and>
    tt_falcon512_sign_seeded_ev lib t sig siglen m mlen sk fill_fn
        (s\<lparr>tls_fill := (tls_fill s)(t := stale)\<rparr>, l) =
      tt_falcon512_sign_seeded_ev lib t sig siglen m mlen sk fill_fn (s, l) \<and>
    tt_falcon512_sign_seeded lib t sig siglen m mlen sk fill_fn
        (s\<lparr>tls_fill := (tls_fill s)(t := stale)\<rparr>) =
      tt_falcon512_sign_seeded lib t sig siglen m mlen sk fill_fn s"
    by (simp only: tt_falcon512_keypair_seeded_ev_def tt_falcon512_keypair_seeded_def
        tt_falcon512_sign_seeded_ev_def tt_falcon512_sign_seeded_def
        set_ev_overwrites set_overwrites simp_thms)
  from k g st show ?thesis by blast
qed

theorem install_precedes_fill_witness:
  "snd (fst (tt_falcon512_keypair_seeded_ev toy_pqclean 0 0x10 0x20 (Some (const_fill 5))
     (tt_set_randombytes 0 (Some (const_fill 9)) (initial_world (\<lambda>a. 0) ()), []))) =
     [(0, Install (Some (const_fill 5))), (0, Fill_read (Some (const_fill 5)))] \<and>
   heap (fst (tt_falcon512_keypair_seeded toy_pqclean 0 0x10 0x20 (Some (const_fill 5))
     (tt_set_randombytes 0 (Some (const_fill 9)) (initial_world (\<lambda>a. 0) ())))) 0x20 = 6 \<and>
   snd (fst (tt_falcon512_sign_seeded_ev toy_pqclean 0 0x30 0x38 0x40 1 0x20 (Some (const_fill 5))
     (tt_set_randombytes 0 (Some (const_fill 9)) (initial_world (\<lambda>a. 3) ()), []))) =
     [(0, Install (Some (const_fill 5))), (0, Fill_read (Some (const_fill 5)))] \<and>
   heap (fst (tt_falcon512_sign_seeded toy_pqclean 0 0x30 0x38 0x40 1 0x20 (Some (const_fill 5))
     (tt_set_randombytes 0 (Some (const_fill 9)) (initial_world (\<lambda>a. 3) ())))) 0x30 = 5"
  using install_precedes_fill [of toy_pqclean 0 "0x10" "0x20" "Some (const_fill 5)"
      "tt_set_randombytes 0 (Some (const_fill 9)) (initial_world (\<lambda>a. 0) ())"
      "None" "[]" "0x30" "0x38" "0x40" 1]
    install_precedes_fill [of toy_pqclean 0 "0x10" "0x20" "Some (const_fill 5)"
      "tt_set_randombytes 0 (Some (const_fill 9)) (initial_world (\<lambda>a. 3) ())"
      "None" "[]" "0x30" "0x38" "0x40" 1]
  by (simp add: toy_pqclean_def tt_falcon512_keypair_seeded_def tt_falcon512_sign_seeded_def
      tt_falcon512_keypair_seeded_ev_def tt_falcon512_sign_seeded_ev_def
      tt_set_randombytes_ev_def randombytes_ev_def PQCLEAN_randombytes_ev_def
      PQCLEAN_randombytes_def randombytes_installed const_fill_def initial_world_def)

text \<open>
  Claim C4. Each seeded operation returns the status its routine returns, unchanged, so it
  returns non-zero exactly when the routine does; the memory it leaves (keys, signature and
  the length stored through \<open>siglen\<close>) is the memory the routine left, run once from the
  state in which the caller's pointer is installed.
\<close>

theorem status_propagated:
  "snd (tt_falcon512_keypair_seeded lib t pk sk fill_fn s) =
     snd (exec t (PQCLEAN_FALCON512_CLEAN_crypto_sign_keypair lib pk sk) (tt_set_randombytes t fill_fn s)) \<and>
   fst (tt_falcon512_keypair_seeded lib t pk sk fill_fn s) =
     fst (exec t (PQCLEAN_FALCON512_CLEAN_crypto_sign_keypair lib pk sk) (tt_set_randombytes t fill_fn s)) \<and>
   snd (tt_falcon512_sign_seeded lib t sig siglen m mlen sk fill_fn s) =
     snd (exec t (PQCLEAN_FALCON512_CLEAN_crypto_sign_signature lib sig siglen m mlen sk) (tt_set_randombytes t fill_fn s)) \<and>
   fst (tt_falcon512_sign_seeded lib t sig siglen m mlen sk fill_fn s) =
     fst (exec t (PQCLEAN_FALCON512_CLEAN_crypto_sign_signature lib sig siglen m mlen sk) (tt_set_randombytes t fill_fn s)) \<and>
   (snd (tt_falcon512_keypair_seeded lib t pk sk fill_fn s) \<noteq> 0) =
     (snd (exec t (PQCLEAN_FALCON512_CLEAN_crypto_sign_keypair lib pk sk) (tt_set_randombytes t fill_fn s)) \<noteq> 0) \<and>
   (snd (tt_falcon512_sign_seeded lib t sig siglen m mlen sk fill_fn s) \<noteq> 0) =
     (snd (exec t (PQCLEAN_FALCON512_CLEAN_crypto_sign_signature lib sig siglen m mlen sk) (tt_set_randombytes t fill_fn s)) \<noteq> 0)"
  by (simp add: tt_falcon512_keypair_seeded_def tt_falcon512_sign_seeded_def)

theorem status_propagated_witness:
  "snd (tt_falcon512_sign_seeded toy_pqclean 0 0x30 0x38 0x40 1 0x20 (Some (const_fill 5))
          (initial_world (\<lambda>a. 0) ())) = 1 \<and>
   snd (tt_falcon512_sign_seeded toy_pqclean 0 0x30 0x38 0x40 1 0x20 (Some (const_fill 5))
          (initial_world (\<lambda>a. 3) ())) = 0 \<and>
   heap (fst (tt_falcon512_sign_seeded toy_pqclean 0 0x30 0x38 0x40 1 0x20 (Some (const_fill 5))
          (initial_world (\<lambda>a. 3) ()))) 0x38 = 1"
  using status_propagated [of toy_pqclean 0 "0x10" "0x20" "Some (const_fill 5)"
      "initial_world (\<lambda>a. 0) ()" "0x30" "0x38" "0x40" 1]
    status_propagated [of toy_pqclean 0 "0x10" "0x20" "Some (const_fill 5)"
      "initial_world (\<lambda>a. 3) ()" "0x30" "0x38" "0x40" 1]
  by (simp add: toy_pqclean_def PQCLEAN_randombytes_def randombytes_installed
      const_fill_def initial_world_def)

text \<open>
  Claim C5. \<open>tt_falcon512_verify\<close> leaves every thread's slot as it found it and returns the
  status of the verification routine as it is, a rejected signature being a non-zero
  status like any other; when the routine makes no fill call, status and memory are the
  same whatever the slots hold.
\<close>

theorem verify_frame:
  "tls_fill (fst (tt_falcon512_verify lib t sig siglen m mlen pk s)) = tls_fill s \<and>
   snd (tt_falcon512_verify lib t sig siglen m mlen pk s) =
     snd (exec t (PQCLEAN_FALCON512_CLEAN_crypto_sign_verify lib sig siglen m mlen pk) s) \<and>
   (slots_seen t (PQCLEAN_FALCON512_CLEAN_crypto_sign_verify lib sig siglen m mlen pk) s = [] \<longrightarrow>
      (\<forall>g. tt_falcon512_verify lib t sig siglen m mlen pk (s\<lparr>tls_fill := g\<rparr>) =
         (fst (tt_falcon512_verify lib t sig siglen m mlen pk s)\<lparr>tls_fill := g\<rparr>,
          snd (tt_falcon512_verify lib t sig siglen m mlen pk s))))"
  by (simp add: tt_falcon512_verify_def exec_no_calls)

theorem verify_frame_witness:
  "slots_seen 0 (PQCLEAN_FALCON512_CLEAN_crypto_sign_verify toy_pqclean 0x30 1 0x40 1 0x10)
     (tt_set_randombytes 0 (Some (const_fill 5)) (initial_world (\<lambda>a. 0) ())) = [] \<and>
   tls_fill (fst (tt_falcon512_verify toy_pqclean 0 0x30 1 0x40 1 0x10
     (tt_set_randombytes 0 (Some (const_fill 5)) (initial_world (\<lambda>a. 0) ())))) 0 =
     Some (const_fill 5) \<and>
   snd (tt_falcon512_verify toy_pqclean 0 0x30 1 0x40 1 0x10
     (tt_set_randombytes 0 (Some (const_fill 5)) (initial_world (\<lambda>a. 0) ())
        \<lparr>tls_fill := \<lambda>t. None\<rparr>)) =
   snd (tt_falcon512_verify toy_pqclean 0 0x30 1 0x40 1 0x10
     (tt_set_randombytes 0 (Some (const_fill 5)) (initial_world (\<lambda>a. 0) ())))"
  using verify_frame [of toy_pqclean 0 "0x30" 1 "0x40" 1 "0x10"
      "tt_set_randombytes 0 (Some (const_fill 5)) (initial_world (\<lambda>a. 0) ())"]
  by (simp add: toy_pqclean_def)

text \<open>
  Claim C6. Let \<open>z\<close> be a fill function that always writes zero bytes: it leaves memory
  with \<open>n\<close> zero bytes from \<open>out\<close> on and all else as it was. Key generation and signing
  called with the null pointer, so that the slot is empty when the routine runs, return the
  status and leave the memory that the same call with \<open>z\<close> does.
\<close>

theorem fallback_equivalence:
  assumes "\<And>out n h x. fst (z out n (h, x)) = zeroed out n h"
  shows
    "snd (tt_falcon512_keypair_seeded lib t pk sk None s) =
       snd (tt_falcon512_keypair_seeded lib t pk sk (Some z) s) \<and>
     heap (fst (tt_falcon512_keypair_seeded lib t pk sk None s)) =
       heap (fst (tt_falcon512_keypair_seeded lib t pk sk (Some z) s)) \<and>
     snd (tt_falcon512_sign_seeded lib t sig siglen m mlen sk None s) =
       snd (tt_falcon512_sign_seeded lib t sig siglen m mlen sk (Some z) s) \<and>
     heap (fst (tt_falcon512_sign_seeded lib t sig siglen m mlen sk None s)) =
       heap (fst (tt_falcon512_sign_seeded lib t sig siglen m mlen sk (Some z) s))"
proof -
  have step: "snd (exec t p (tt_set_randombytes t None s)) =
        snd (exec t p (tt_set_randombytes t (Some z) s)) \<and>
      heap (fst (exec t p (tt_set_randombytes t None s))) =
        heap (fst (exec t p (tt_set_randombytes t (Some z) s)))"
    for p :: "c_int routine"
    by (rule exec_zero_fill [OF assms]) simp_all
  show ?thesis
    using step [of "PQCLEAN_FALCON512_CLEAN_crypto_sign_keypair lib pk sk"] step [of "PQCLEAN_FALCON512_CLEAN_crypto_sign_signature lib sig siglen m mlen sk"]
    by (simp add: tt_falcon512_keypair_seeded_def tt_falcon512_sign_seeded_def)
qed

theorem fallback_equivalence_witness:
  "(\<forall>out n h x. fst (const_fill 0 out n (h, x :: unit)) = zeroed out n h) \<and>
   heap (fst (tt_falcon512_keypair_seeded toy_pqclean 0 0x10 0x20 None
     (initial_world (\<lambda>a. 0xFF) ()))) =
   heap (fst (tt_falcon512_keypair_seeded toy_pqclean 0 0x10 0x20 (Some (const_fill 0))
     (initial_world (\<lambda>a. 0xFF) ()))) \<and>
   heap (fst (tt_falcon512_keypair_seeded toy_pqclean 0 0x10 0x20 (Some (const_fill 0))
     (initial_world (\<lambda>a. 0xFF) ()))) 0x20 = 1"
  using fallback_equivalence [of "const_fill 0" toy_pqclean 0 "0x10" "0x20"
      "initial_world (\<lambda>a. 0xFF) ()" "0x30" "0x38" "0x40" 1, OF const_fill_zero]
  by (simp add: toy_pqclean_def tt_falcon512_keypair_seeded_def
      randombytes_installed const_fill_def zeroed_def initial_world_def)

text \<open>
  Claim C7. If two fill functions, each started in the state of its owner, produce
  identical byte streams, then key generation called with the one and key generation
  called with the other, from the same memory, return the same status and leave the same
  memory, hence the same public and secret key bytes. The result is a function of the
  memory, the routine and the fill function alone.
\<close>

theorem keypair_deterministic:
  assumes "same_stream f g (ext s1) (ext s2)" and "heap s1 = heap s2"
  shows
    "snd (tt_falcon512_keypair_seeded lib t1 pk sk (Some f) s1) =
       snd (tt_falcon512_keypair_seeded lib t2 pk sk (Some g) s2) \<and>
     heap (fst (tt_falcon512_keypair_seeded lib t1 pk sk (Some f) s1)) =
       heap (fst (tt_falcon512_keypair_seeded lib t2 pk sk (Some g) s2))"
  unfolding tt_falcon512_keypair_seeded_def
  by (rule exec_same_stream [of f g]) (simp_all add: assms)

theorem keypair_deterministic_witness:
  "same_stream (const_fill 5) (counting_fill 5) () (7::nat) \<and>
   heap (fst (tt_falcon512_keypair_seeded toy_pqclean 0 0x10 0x20 (Some (const_fill 5))
     (initial_world (\<lambda>a. 0) ()))) =
   heap (fst (tt_falcon512_keypair_seeded toy_pqclean 1 0x10 0x20 (Some (counting_fill 5))
     (initial_world (\<lambda>a. 0) (7::nat)))) \<and>
   heap (fst (tt_falcon512_keypair_seeded toy_pqclean 1 0x10 0x20 (Some (counting_fill 5))
     (initial_world (\<lambda>a. 0) (7::nat)))) 0x20 = 6 \<and>
   ext (fst (tt_falcon512_keypair_seeded toy_pqclean 1 0x10 0x20 (Some (counting_fill 5))
     (initial_world (\<lambda>a. 0) (7::nat)))) = 8"
  using keypair_deterministic [of "const_fill 5" "counting_fill 5"
      "initial_world (\<lambda>a. 0) ()" "initial_world (\<lambda>a. 0) (7::nat)" toy_pqclean 0 "0x10" "0x20" 1]
    same_stream_const_counting [of 5 "()" "7::nat"]
  by (simp add: toy_pqclean_def tt_falcon512_keypair_seeded_def randombytes_installed
      counting_fill_def initial_world_def)

section \<open>Transitions of the slot\<close>

text \<open>
  Claim C3, as the specification states it, lists two transitions for \<open>set\<close> and no other.
  The code stores whatever pointer it is given: installing a function and then storing the
  null pointer takes the slot from Installed to Empty, which is not one of the two.
\<close>

theorem set_transition_counterexample:
  "slot_state 0 (tt_set_randombytes 0 (Some (const_fill 1)) (initial_world (\<lambda>a. 0) ())) =
     Installed (const_fill 1) \<and>
   slot_state 0 (tt_set_randombytes 0 None
     (tt_set_randombytes 0 (Some (const_fill 1)) (initial_world (\<lambda>a. 0) ()))) = Empty \<and>
   \<not> spec_transition
     (slot_state 0 (tt_set_randombytes 0 (Some (const_fill 1)) (initial_world (\<lambda>a. 0) ())))
     (slot_state 0 (tt_set_randombytes 0 None
        (tt_set_randombytes 0 (Some (const_fill 1)) (initial_world (\<lambda>a. 0) ()))))"
  by (simp add: slot_state_def initial_world_def)

text \<open>
  Claim C3, amended. The slot of a thread is Empty or Installed with one function.
  \<open>tt_set_randombytes\<close> always returns; in the calling thread it takes either state to
  Installed with the function given, replacing the old one, and to Empty when the pointer
  given is null; a second store replaces the first, nothing is queued; the store changes
  neither another thread's slot nor memory nor the owner's state.
\<close>

theorem set_transitions:
  "slot_state t (tt_set_randombytes t (Some f) s) = Installed f \<and>
   slot_state t (tt_set_randombytes t None s) = Empty \<and>
   slot_state t' (tt_set_randombytes t fill_fn s) =
     (if t' = t then (case fill_fn of None \<Rightarrow> Empty | Some f' \<Rightarrow> Installed f')
      else slot_state t' s) \<and>
   heap (tt_set_randombytes t fill_fn s) = heap s \<and>
   ext (tt_set_randombytes t fill_fn s) = ext s \<and>
   tt_set_randombytes t fill_fn (tt_set_randombytes t old s) = tt_set_randombytes t fill_fn s \<and>
   (slot_state t s = Empty \<or> (\<exists>g. slot_state t s = Installed g))"
  by (simp add: slot_state_def tt_set_randombytes_def split: option.splits)

theorem set_transitions_witness:
  "slot_state 0 (tt_set_randombytes 0 (Some (const_fill 2))
     (tt_set_randombytes 0 (Some (const_fill 1)) (initial_world (\<lambda>a. 0) ()))) =
     Installed (const_fill 2) \<and>
   slot_state 1 (tt_set_randombytes 0 (Some (const_fill 2))
     (tt_set_randombytes 0 (Some (const_fill 1)) (initial_world (\<lambda>a. 0) ()))) = Empty \<and>
   slot_state 0 (tt_set_randombytes 0 None
     (tt_set_randombytes 0 (Some (const_fill 1)) (initial_world (\<lambda>a. 0) ()))) = Empty \<and>
   heap (tt_set_randombytes 0 (Some (const_fill 2))
     (tt_set_randombytes 0 (Some (const_fill 1)) (initial_world (\<lambda>a. 0) ()))) 7 = 0"
  using set_transitions [of 0 "const_fill 2"
      "tt_set_randombytes 0 (Some (const_fill 1)) (initial_world (\<lambda>a. 0) ())"
      0 "Some (const_fill 2)" None]
    set_transitions [of 0 "const_fill 2"
      "tt_set_randombytes 0 (Some (const_fill 1)) (initial_world (\<lambda>a. 0) ())"
      1 "Some (const_fill 2)" None]
  by (simp add: slot_state_def initial_world_def)

text \<open>
  Claim C10. Storing the null pointer empties the calling thread's slot, whatever was
  installed before: after it, and after any further fill requests that thread serves, the
  slot is Empty and a fill request writes \<open>n\<close> zero bytes from \<open>out\<close> on and nothing else.
\<close>

theorem set_null_clears:
  "slot_state t (tt_set_randombytes t None s) = Empty \<and>
   slot_state t (fills t rs (tt_set_randombytes t None s)) = Empty \<and>
   randombytes t out n (fills t rs (tt_set_randombytes t None s)) =
     (fills t rs (tt_set_randombytes t None s))
       \<lparr>heap := (\<lambda>a. if a - out < n then 0
                      else heap (fills t rs (tt_set_randombytes t None s)) a)\<rparr> \<and>
   PQCLEAN_randombytes t out n (fills t rs (tt_set_randombytes t None s)) =
     (fills t rs (tt_set_randombytes t None s))
       \<lparr>heap := (\<lambda>a. if a - out < n then 0
                      else heap (fills t rs (tt_set_randombytes t None s)) a)\<rparr>"
  by (simp add: slot_state_def PQCLEAN_randombytes_def randombytes_empty zeroed_def)

theorem set_null_clears_witness:
  "slot_state 0 (tt_set_randombytes 0 (Some (const_fill 9)) (initial_world (\<lambda>a. 0xFF) ())) =
     Installed (const_fill 9) \<and>
   heap (randombytes 0 0x20 1 (fills 0 [(0x10, 2)] (tt_set_randombytes 0 None
     (tt_set_randombytes 0 (Some (const_fill 9)) (initial_world (\<lambda>a. 0xFF) ()))))) 0x20 = 0 \<and>
   heap (randombytes 0 0x20 1 (fills 0 [(0x10, 2)] (tt_set_randombytes 0 None
     (tt_set_randombytes 0 (Some (const_fill 9)) (initial_world (\<lambda>a. 0xFF) ()))))) 0x11 = 0 \<and>
   heap (randombytes 0 0x20 1 (fills 0 [(0x10, 2)] (tt_set_randombytes 0 None
     (tt_set_randombytes 0 (Some (const_fill 9)) (initial_world (\<lambda>a. 0xFF) ()))))) 0x12 = 0xFF"
  using set_null_clears [of 0
      "tt_set_randombytes 0 (Some (const_fill 9)) (initial_world (\<lambda>a. 0xFF) ())"
      "[(0x10, 2)]" "0x20" 1]
    set_null_clears [of 0
      "tt_set_randombytes 0 (Some (const_fill 9)) (initial_world (\<lambda>a. 0xFF) ())"
      "[]" "0x10" 2]
  by (simp add: slot_state_def initial_world_def)

section \<open>Several contexts\<close>

text \<open>
  Claim C8. The slot is one per thread: a store by one thread leaves the slot of every
  other thread as it was. Let the contexts \<open>ts\<close> be independent and let any
  schedule interleave the steps of their calls. Then every read of the slot by a thread
  finds the pointer that thread itself stored last, never one stored by another thread; and
  every call that has returned has returned the status it returns when run alone and when
  the calls are made one after the other, and the memory and owner's state of its thread
  are those of the sequential run.
\<close>

theorem contexts_isolated:
  assumes "independent lib calls A (set ts)" and "distinct ts" and "set sched \<subseteq> set ts"
  shows
    "(\<forall>u u' p s'. u' \<noteq> u \<longrightarrow> tls_fill (tt_set_randombytes u p s') u' = tls_fill s' u') \<and>
     reads_own (snd (fst (run lib sched ((s, []), \<lambda>t. Entering (calls t))))) \<and>
     (\<forall>t\<in>set ts. \<forall>r.
        returned (snd (run lib sched ((s, []), \<lambda>t. Entering (calls t))) t) = Some r \<longrightarrow>
          r = snd (seeded_call lib t (calls t) s) \<and>
          snd (seq_calls lib calls ts (s, \<lambda>t. None)) t = Some r \<and>
          agree (A t) (heap (fst (fst (run lib sched ((s, []), \<lambda>t. Entering (calls t))))))
            (heap (fst (seq_calls lib calls ts (s, \<lambda>t. None)))) \<and>
          ext (fst (fst (run lib sched ((s, []), \<lambda>t. Entering (calls t))))) t =
            ext (fst (seq_calls lib calls ts (s, \<lambda>t. None))) t)"
proof -
  let ?cfg0 = "((s, []), \<lambda>t. Entering (calls t))"
  let ?par = "run lib sched ?cfg0"
  let ?seq = "seq_calls lib calls ts (s, \<lambda>t. None)"
  have slot: "\<forall>u u' p s'. u' \<noteq> u \<longrightarrow> tls_fill (tt_set_randombytes u p s') u' = tls_fill s' u'"
    by simp
  have log: "reads_own (snd (fst ?par))"
    using log_inv_run [OF log_inv_initial, of lib sched s calls] by (simp add: log_inv_def)
  have out: "\<forall>t\<in>set ts. \<forall>r. returned (snd ?par t) = Some r \<longrightarrow>
      r = snd (seeded_call lib t (calls t) s) \<and>
      snd ?seq t = Some r \<and>
      agree (A t) (heap (fst (fst ?par))) (heap (fst ?seq)) \<and>
      ext (fst (fst ?par)) t = ext (fst ?seq) t"
  proof (intro ballI allI impI conjI)
    fix t r
    assume t: "t \<in> set ts" and ret: "returned (snd ?par t) = Some r"
    have inv: "task_inv lib calls A (set ts) ?cfg0" by (rule task_inv_initial)
    from run_outcome [OF assms(1) inv assms(3) t]
    have "snd (outcome lib t ?par) = snd (outcome lib t ?cfg0)"
      and "same_view t (A t) (fst (outcome lib t ?par)) (fst (outcome lib t ?cfg0))"
      by simp_all
    with outcome_returned [OF ret, of lib]
    have p1: "r = snd (seeded_call lib t (calls t) s)"
      and p2: "same_view t (A t) (fst (fst ?par)) (fst (seeded_call lib t (calls t) s))"
      by (simp_all add: outcome_def)
    from seq_calls_alone [OF assms(1) subset_refl assms(2) t, of "(s, \<lambda>t. None)"]
    have q1: "snd ?seq t = Some (snd (seeded_call lib t (calls t) s))"
      and q2: "same_view t (A t) (fst ?seq) (fst (seeded_call lib t (calls t) s))"
      by simp_all
    from p2 same_view_sym [OF q2] have v: "same_view t (A t) (fst (fst ?par)) (fst ?seq)"
      by (rule same_view_trans)
    show "r = snd (seeded_call lib t (calls t) s)" by (rule p1)
    show "snd ?seq t = Some r" using p1 q1 by simp
    show "agree (A t) (heap (fst (fst ?par))) (heap (fst ?seq))"
      using v by (simp add: same_view_def)
    show "ext (fst (fst ?par)) t = ext (fst ?seq) t" using v by (simp add: same_view_def)
  qed
  from slot log out show ?thesis by (intro conjI)
qed

theorem contexts_isolated_witness:
  "independent toy_pqclean two_calls two_regions (set [0, 1]) \<and>
   returned (snd (run toy_pqclean [0, 1, 1, 0, 1, 0, 0, 1]
      ((initial_world (\<lambda>a. 0) (\<lambda>t. 0), []), \<lambda>t. Entering (two_calls t))) 0) = Some 0 \<and>
   returned (snd (run toy_pqclean [0, 1, 1, 0, 1, 0, 0, 1]
      ((initial_world (\<lambda>a. 0) (\<lambda>t. 0), []), \<lambda>t. Entering (two_calls t))) 1) = Some 0 \<and>
   snd (seq_calls toy_pqclean two_calls [0, 1] (initial_world (\<lambda>a. 0) (\<lambda>t. 0), \<lambda>t. None)) 0 =
     Some 0 \<and>
   snd (seq_calls toy_pqclean two_calls [0, 1] (initial_world (\<lambda>a. 0) (\<lambda>t. 0), \<lambda>t. None)) 1 =
     Some 0 \<and>
   heap (fst (fst (run toy_pqclean [0, 1, 1, 0, 1, 0, 0, 1]
      ((initial_world (\<lambda>a. 0) (\<lambda>t. 0), []), \<lambda>t. Entering (two_calls t))))) 0x20 = 6 \<and>
   heap (fst (seq_calls toy_pqclean two_calls [0, 1]
      (initial_world (\<lambda>a. 0) (\<lambda>t. 0), \<lambda>t. None))) 0x20 = 6 \<and>
   heap (fst (fst (run toy_pqclean [0, 1, 1, 0, 1, 0, 0, 1]
      ((initial_world (\<lambda>a. 0) (\<lambda>t. 0), []), \<lambda>t. Entering (two_calls t))))) 0x120 = 10 \<and>
   heap (fst (seq_calls toy_pqclean two_calls [0, 1]
      (initial_world (\<lambda>a. 0) (\<lambda>t. 0), \<lambda>t. None))) 0x120 = 10 \<and>
   reads_own (snd (fst (run toy_pqclean [0, 1, 1, 0, 1, 0, 0, 1]
      ((initial_world (\<lambda>a. 0) (\<lambda>t. 0), []), \<lambda>t. Entering (two_calls t)))))"
proof -
  let ?s = "initial_world (\<lambda>a. 0) (\<lambda>t. 0) :: (tid \<Rightarrow> nat) world"
  let ?par = "run toy_pqclean [0, 1, 1, 0, 1, 0, 0, 1] ((?s, []), \<lambda>t. Entering (two_calls t))"
  let ?seq = "seq_calls toy_pqclean two_calls [0, 1] (?s, \<lambda>t. None)"
  have d: "distinct [0 :: nat, 1]" by simp
  have sub: "set [0, 1, 1, 0, 1, 0, 0, 1] \<subseteq> set [0 :: nat, 1]" by simp
  note th = contexts_isolated [OF two_independent d sub, of ?s]
  from th have ro: "reads_own (snd (fst ?par))" by (rule conjunct2 [THEN conjunct1])
  from th have all: "\<forall>t\<in>set [0, 1]. \<forall>r. returned (snd ?par t) = Some r \<longrightarrow>
      r = snd (seeded_call toy_pqclean t (two_calls t) ?s) \<and>
      snd ?seq t = Some r \<and>
      agree (two_regions t) (heap (fst (fst ?par))) (heap (fst ?seq)) \<and>
      ext (fst (fst ?par)) t = ext (fst ?seq) t" by (rule conjunct2 [THEN conjunct2])
  note r = two_run_returned and h = two_run_heap
  have m0: "(0 :: nat) \<in> set [0, 1]" and m1: "(1 :: nat) \<in> set [0, 1]" by simp_all
  from all [rule_format, OF m0 r [THEN conjunct1]]
  have s0: "snd ?seq 0 = Some 0" and a0: "agree (two_regions 0) (heap (fst (fst ?par))) (heap (fst ?seq))"
    by blast+
  from all [rule_format, OF m1 r [THEN conjunct2]]
  have s1: "snd ?seq 1 = Some 0" and a1: "agree (two_regions 1) (heap (fst (fst ?par))) (heap (fst ?seq))"
    by blast+
  have "(0x20 :: addr) \<in> two_regions 0" by (simp add: two_regions_def buffer_def)
  with a0 have e0: "heap (fst (fst ?par)) 0x20 = heap (fst ?seq) 0x20" by (simp only: agree_def)
  have "(0x120 :: addr) \<in> two_regions 1" by (simp add: two_regions_def buffer_def)
  with a1 have e1: "heap (fst (fst ?par)) 0x120 = heap (fst ?seq) 0x120" by (simp only: agree_def)
  from h e0 have q0: "heap (fst ?seq) 0x20 = 6" by simp
  from h e1 have q1: "heap (fst ?seq) 0x120 = 10" by simp
  from two_independent r s0 s1 h q0 q1 ro show ?thesis by blast
qed

end
